theory Spec2Isabelle
  imports Complex_Main "HOL-Library.Word" "HOL-Library.Monad_Syntax"
begin

unbundle bit_operations_syntax

section \<open>The spectrum engine of \<^verbatim>\<open>main/src/user/fft.c\<close>\<close>

text \<open>
  The C file keeps its tables, its buffers and its decay counters in static arrays and
  exposes \<^verbatim>\<open>fft_init\<close>, \<^verbatim>\<open>fft_load_data\<close>, \<^verbatim>\<open>fft_execute\<close> and the three output shapers
  \<^verbatim>\<open>fft_compute_lin\<close>, \<^verbatim>\<open>fft_compute_log\<close>, \<^verbatim>\<open>fft_compute_bands\<close>.

  Conventions of the embedding:
  \<^item> The tables, the sample buffer and the spectrum array of the engine state hold
    finite \<^verbatim>\<open>float\<close> and \<^verbatim>\<open>float complex\<close> values and are lists of the real and complex
    numbers that these denote. In the table generation, the butterfly network and the
    logarithmic and band paths, finite arithmetic is exact; the non-finite results that the
    code can produce there from finite operands (\<^verbatim>\<open>log10f\<close> of zero or of a negative
    number) are kept, as values of the type \<open>fval\<close>.
  \<^item> The arithmetic of \<^verbatim>\<open>compute_freq_lin\<close>, of \<^verbatim>\<open>fft_compute_lin\<close> and of the amplitude
    loop of \<^verbatim>\<open>fft_execute\<close> is IEEE 754 arithmetic on \<open>fval\<close>: every operation is rounded
    to nearest, ties to even, in the format that C gives it (\<^verbatim>\<open>float\<close> between \<^verbatim>\<open>float\<close>
    operands, \<^verbatim>\<open>double\<close> as soon as a constant such as \<^verbatim>\<open>2.0\<close>, \<^verbatim>\<open>40.0\<close> or \<^verbatim>\<open>0.5\<close> takes
    part; no extended intermediate precision, no fused operation), a result beyond the
    largest finite number is an infinity, and infinities and NaN combine as the standard
    says. The two zeros are one value.
  \<^item> \<^verbatim>\<open>uint16_t\<close> is \<open>16 word\<close>, \<^verbatim>\<open>uint8_t\<close> is \<open>8 word\<close>.
  \<^item> Loop counters and array sizes, which the code never lets go negative and which
    stay far below \<open>2^31\<close>, are natural numbers; the band limits \<^verbatim>\<open>a\<close>, \<^verbatim>\<open>b\<close> of
    \<^verbatim>\<open>compute_freq_band\<close> come from \<^verbatim>\<open>ceilf\<close>/\<^verbatim>\<open>floorf\<close> and are integers.
  \<^item> The header \<^verbatim>\<open>user/fft.h\<close> is not part of the sources at hand. Its compile-time
    constants are the fields of the record \<open>fft_config\<close>; \<^verbatim>\<open>TWO_PI\<close>, \<^verbatim>\<open>MAX\<close> and the
    channel enumeration are modelled from the specification.
\<close>

subsection \<open>Constants of the missing header\<close>

record fft_config =
  FFT_N :: nat
  FFT_OUT_N :: nat
  BAND_N :: nat
  BAND_FADE :: int
  BAND_DELAY :: int

text \<open>Modelled from the spec: the macro \<^verbatim>\<open>TWO_PI\<close> of \<^verbatim>\<open>user/fft.h\<close>; the
  specification writes the window and the twiddle factors with \<open>2\<pi>\<close>.\<close>

definition TWO_PI :: real where
  "TWO_PI = 2 * pi"

text \<open>Modelled from the spec: the macro \<^verbatim>\<open>MAX\<close> of \<^verbatim>\<open>user/fft.h\<close>; the
  specification reads \<^verbatim>\<open>MAX(0, v)\<close> as "\<open>v\<close> floored at 0" (\<open>MAX\<close> is
  HOL syntax already, hence the suffix).\<close>

definition MAX_int :: "int \<Rightarrow> int \<Rightarrow> int" where
  "MAX_int a b = (if a > b then a else b)"

text \<open>Modelled from the spec: the enumeration \<^verbatim>\<open>fft_channel_t\<close> of \<^verbatim>\<open>user/fft.h\<close>
  (left, right, mixed). A C enumeration is an integer type, so a caller can pass a
  value that is none of the three enumerators: \<open>FFT_CHANNEL_OTHER v\<close>.\<close>

datatype fft_channel_t =
  FFT_CHANNEL_L | FFT_CHANNEL_R | FFT_CHANNEL_LR | FFT_CHANNEL_OTHER int

subsection \<open>Floating-point results and conversions\<close>

datatype fval = Fin real | PosInf | NegInf | NaN

text \<open>\<^verbatim>\<open>log10f\<close>: minus infinity at zero, not a number below zero.\<close>

definition log10f :: "fval \<Rightarrow> fval" where
  "log10f v = (case v of
      Fin x \<Rightarrow> (if x > 0 then Fin (log 10 x) else if x = 0 then NegInf else NaN)
    | PosInf \<Rightarrow> PosInf
    | NegInf \<Rightarrow> NaN
    | NaN \<Rightarrow> NaN)"

text \<open>\<open>fscale c v\<close> is the product of the finite number \<open>c\<close> and \<open>v\<close>;
  \<open>fshift c v\<close> is their sum; \<open>fgt v c\<close> is the comparison \<^verbatim>\<open>v > c\<close>, false for
  a NaN.\<close>

definition fscale :: "real \<Rightarrow> fval \<Rightarrow> fval" where
  "fscale c v = (case v of
      Fin x \<Rightarrow> Fin (c * x)
    | PosInf \<Rightarrow> (if c > 0 then PosInf else if c < 0 then NegInf else NaN)
    | NegInf \<Rightarrow> (if c > 0 then NegInf else if c < 0 then PosInf else NaN)
    | NaN \<Rightarrow> NaN)"

definition fshift :: "real \<Rightarrow> fval \<Rightarrow> fval" where
  "fshift c v = (case v of Fin x \<Rightarrow> Fin (c + x) | PosInf \<Rightarrow> PosInf | NegInf \<Rightarrow> NegInf | NaN \<Rightarrow> NaN)"

definition fgt :: "fval \<Rightarrow> real \<Rightarrow> bool" where
  "fgt v c = (case v of Fin x \<Rightarrow> x > c | PosInf \<Rightarrow> True | NegInf \<Rightarrow> False | NaN \<Rightarrow> False)"

text \<open>
  Storing a floating-point value into a \<^verbatim>\<open>uint16_t\<close>: the fraction is dropped when the
  truncated value is representable (the value lies strictly between \<open>-1\<close> and \<open>65536\<close>).
  For every other value (out of range, infinite, NaN) C leaves the conversion
  undefined; the model takes the 16 bits that the platform stores there from the
  parameter \<open>ub\<close>, about which nothing is assumed.
\<close>

definition to_u16 :: "(fval \<Rightarrow> 16 word) \<Rightarrow> fval \<Rightarrow> 16 word" where
  "to_u16 ub v = (case v of
      Fin x \<Rightarrow> (if -1 < x \<and> x < 65536 then word_of_nat (nat \<lfloor>x\<rfloor>) else ub v)
    | _ \<Rightarrow> ub v)"

text \<open>The clamp that ends every iteration of the three output shapers.\<close>

definition clamp_u16 :: "16 word \<Rightarrow> 16 word \<Rightarrow> 16 word \<Rightarrow> 16 word" where
  "clamp_u16 max_val min_val d =
     (if d > max_val then max_val else if d < min_val then min_val else d)"

subsection \<open>Rounded arithmetic\<close>

text \<open>
  \<open>round_to p emin emax x\<close> is the number of the binary format with \<open>p\<close> significant bits
  and exponents from \<open>emin\<close> to \<open>emax\<close> that is nearest to the real number \<open>x\<close>, ties
  going to the even significand: \<open>x\<close> is divided by the unit in the last place of its
  binade (of the lowest binade for a subnormal \<open>x\<close>), the quotient is rounded to an
  integer, and a result that has left the finite range is an infinity.
\<close>

definition pow2 :: "int \<Rightarrow> real" where
  "pow2 k = (if 0 \<le> k then 2 ^ nat k else 1 / 2 ^ nat (- k))"

definition round_even :: "real \<Rightarrow> int" where
  "round_even q =
     (let f = \<lfloor>q\<rfloor>; r = q - of_int f
      in if r < 1 / 2 then f else if 1 / 2 < r then f + 1 else if even f then f else f + 1)"

definition round_to :: "nat \<Rightarrow> int \<Rightarrow> int \<Rightarrow> real \<Rightarrow> fval" where
  "round_to p emin emax x =
     (if x = 0 then Fin 0
      else (let e = max \<lfloor>log 2 \<bar>x\<bar>\<rfloor> emin;
                u = pow2 (e - (int p - 1));
                y = of_int (round_even (x / u)) * u
            in if pow2 (emax + 1) \<le> \<bar>y\<bar> then (if 0 < x then PosInf else NegInf) else Fin y))"

text \<open>\<^verbatim>\<open>float\<close> is binary32 and \<^verbatim>\<open>double\<close> is binary64.\<close>

definition round_float :: "real \<Rightarrow> fval" where
  "round_float = round_to 24 (- 126) 127"

definition round_double :: "real \<Rightarrow> fval" where
  "round_double = round_to 53 (- 1022) 1023"

text \<open>
  The operations, with the rounding \<open>r\<close> of the format they are carried out in. A
  difference \<^verbatim>\<open>x - y\<close> is the sum of \<open>x\<close> and \<open>fneg y\<close>. A finite dividend over zero: the
  only divisor of the code that can be zero is the integer \<^verbatim>\<open>step\<close>, which converts to
  \<open>+0\<close>. \<open>fcast r\<close> is the conversion to the format of \<open>r\<close>.
\<close>

definition fneg :: "fval \<Rightarrow> fval" where
  "fneg v = (case v of Fin x \<Rightarrow> Fin (- x) | PosInf \<Rightarrow> NegInf | NegInf \<Rightarrow> PosInf | NaN \<Rightarrow> NaN)"

fun fadd :: "(real \<Rightarrow> fval) \<Rightarrow> fval \<Rightarrow> fval \<Rightarrow> fval" where
  "fadd r (Fin x) (Fin y) = r (x + y)"
| "fadd r NaN b = NaN"
| "fadd r a NaN = NaN"
| "fadd r PosInf NegInf = NaN"
| "fadd r NegInf PosInf = NaN"
| "fadd r PosInf b = PosInf"
| "fadd r a PosInf = PosInf"
| "fadd r NegInf b = NegInf"
| "fadd r a NegInf = NegInf"

fun fmul :: "(real \<Rightarrow> fval) \<Rightarrow> fval \<Rightarrow> fval \<Rightarrow> fval" where
  "fmul r (Fin x) (Fin y) = r (x * y)"
| "fmul r NaN b = NaN"
| "fmul r a NaN = NaN"
| "fmul r (Fin x) PosInf = (if x = 0 then NaN else if 0 < x then PosInf else NegInf)"
| "fmul r (Fin x) NegInf = (if x = 0 then NaN else if 0 < x then NegInf else PosInf)"
| "fmul r PosInf (Fin y) = (if y = 0 then NaN else if 0 < y then PosInf else NegInf)"
| "fmul r NegInf (Fin y) = (if y = 0 then NaN else if 0 < y then NegInf else PosInf)"
| "fmul r PosInf PosInf = PosInf"
| "fmul r PosInf NegInf = NegInf"
| "fmul r NegInf PosInf = NegInf"
| "fmul r NegInf NegInf = PosInf"

fun fdiv :: "(real \<Rightarrow> fval) \<Rightarrow> fval \<Rightarrow> fval \<Rightarrow> fval" where
  "fdiv r (Fin x) (Fin y) =
     (if y = 0 then (if x = 0 then NaN else if 0 < x then PosInf else NegInf) else r (x / y))"
| "fdiv r NaN b = NaN"
| "fdiv r a NaN = NaN"
| "fdiv r (Fin x) PosInf = Fin 0"
| "fdiv r (Fin x) NegInf = Fin 0"
| "fdiv r PosInf (Fin y) = (if 0 \<le> y then PosInf else NegInf)"
| "fdiv r NegInf (Fin y) = (if 0 \<le> y then NegInf else PosInf)"
| "fdiv r PosInf b = NaN"
| "fdiv r NegInf b = NaN"

definition fcast :: "(real \<Rightarrow> fval) \<Rightarrow> fval \<Rightarrow> fval" where
  "fcast r v = (case v of Fin x \<Rightarrow> r x | PosInf \<Rightarrow> PosInf | NegInf \<Rightarrow> NegInf | NaN \<Rightarrow> NaN)"

text \<open>The comparisons \<^verbatim>\<open>v >= 0\<close> and \<^verbatim>\<open>v < 0\<close> of C: both are false for a NaN.\<close>

definition fge0 :: "fval \<Rightarrow> bool" where
  "fge0 v = (case v of Fin y \<Rightarrow> 0 \<le> y | PosInf \<Rightarrow> True | NegInf \<Rightarrow> False | NaN \<Rightarrow> False)"

definition flt0 :: "fval \<Rightarrow> bool" where
  "flt0 v = (case v of Fin y \<Rightarrow> y < 0 | PosInf \<Rightarrow> False | NegInf \<Rightarrow> True | NaN \<Rightarrow> False)"

text \<open>A finite value within the range of \<^verbatim>\<open>float\<close>.\<close>

definition ffinite :: "fval \<Rightarrow> bool" where
  "ffinite v = (case v of Fin y \<Rightarrow> \<bar>y\<bar> < pow2 128 | PosInf \<Rightarrow> False | NegInf \<Rightarrow> False | NaN \<Rightarrow> False)"

subsection \<open>Table generation\<close>

function bit_reverse_loop :: "nat \<Rightarrow> nat \<Rightarrow> nat \<Rightarrow> nat" where
  "bit_reverse_loop i x y =
     (if i > 0
      then bit_reverse_loop (drop_bit 1 i) (drop_bit 1 x) (push_bit 1 y OR (x AND 1))
      else y)"
  by pat_completeness auto
termination
  by (relation "measure (\<lambda>(i, x, y). i)") (auto simp: drop_bit_eq_div)

declare bit_reverse_loop.simps [simp del]

definition bit_reverse :: "nat \<Rightarrow> nat \<Rightarrow> nat" where
  "bit_reverse N x = bit_reverse_loop (drop_bit 1 N) x 0"

text \<open>Each of the four loops of \<^verbatim>\<open>compute_fft_tables\<close> writes every index of its
  array once, with a value that depends on the index alone.\<close>

definition bitrev_table :: "nat \<Rightarrow> nat list" where
  "bitrev_table N = map (bit_reverse N) [0..<N]"

definition window_at :: "nat \<Rightarrow> nat \<Rightarrow> real" where
  "window_at N i = 0.53836 - 0.46164 * cos (real i * TWO_PI / (real N * 2 - 1))"

definition window_table :: "nat \<Rightarrow> real list" where
  "window_table N = map (window_at N) [0..<N * 2]"

definition xscale_at :: "nat \<Rightarrow> nat \<Rightarrow> nat \<Rightarrow> real" where
  "xscale_at N B i = real N powr (real i / real B) - 0.5"

definition xscale_table :: "nat \<Rightarrow> nat \<Rightarrow> real list" where
  "xscale_table N B = map (xscale_at N B) [0..<B + 1]"

definition root_at :: "nat \<Rightarrow> nat \<Rightarrow> complex" where
  "root_at N i = cis (- real i * TWO_PI / (real N - 1))"

definition root_table :: "nat \<Rightarrow> complex list" where
  "root_table N = map (root_at N) [0..<N div 2]"

subsection \<open>Arithmetic averages of spectrum bins\<close>

text \<open>
  \<^verbatim>\<open>compute_freq_lin\<close> adds \<open>step\<close> consecutive bins from \<open>step * idx\<close> on to the \<^verbatim>\<open>float\<close>
  \<open>n\<close>, one \<^verbatim>\<open>float\<close> addition per bin, and returns \<^verbatim>\<open>n / step * 2.0\<close>: the quotient is a
  \<^verbatim>\<open>float\<close> division by the converted \<open>step\<close>, the product with \<^verbatim>\<open>2.0\<close> is a \<^verbatim>\<open>double\<close>, and
  the \<^verbatim>\<open>return\<close> converts it to \<^verbatim>\<open>float\<close>. With no bin to sum (\<open>step = 0\<close>) the quotient is
  \<^verbatim>\<open>0.0 / 0\<close>, a NaN. Its callers pass \<open>step = FFT_N / FFT_OUT_N\<close> and \<open>idx < FFT_OUT_N\<close>, so
  every index read is below \<open>FFT_N\<close>, the size of the array.
\<close>

definition compute_freq_lin :: "real list \<Rightarrow> nat \<Rightarrow> nat \<Rightarrow> fval" where
  "compute_freq_lin freq step idx =
     (let n = fold (\<lambda>i n. fadd round_float n (Fin (freq ! (step * idx + i)))) [0..<step] (Fin 0)
      in fcast round_float
           (fmul round_double (fdiv round_float n (round_float (real step))) (Fin 2)))"

subsection \<open>Logarithmic bands\<close>

text \<open>A read of \<^verbatim>\<open>freq[k]\<close> that records whether \<open>k\<close> is an index of the array:
  \<open>None\<close> is a read outside it.\<close>

definition freq_read :: "real list \<Rightarrow> int \<Rightarrow> real option" where
  "freq_read freq k = (if 0 \<le> k \<and> k < int (length freq) then Some (freq ! nat k) else None)"

text \<open>The loop \<^verbatim>\<open>for (; a < b; a++) n += freq[a];\<close>\<close>

function band_sum :: "real list \<Rightarrow> int \<Rightarrow> int \<Rightarrow> real \<Rightarrow> real option" where
  "band_sum freq a b n =
     (if a < b
      then do { v \<leftarrow> freq_read freq a; band_sum freq (a + 1) b (n + v) }
      else Some n)"
  by pat_completeness auto
termination
  by (relation "measure (\<lambda>(freq, a, b, n). nat (b - a))") auto

declare band_sum.simps [simp del]

text \<open>
  \<^verbatim>\<open>compute_freq_band\<close>; \<open>N\<close> and \<open>B\<close> stand for \<^verbatim>\<open>FFT_N\<close> and \<^verbatim>\<open>BAND_N\<close>. The result
  is \<open>None\<close> when the function reads \<^verbatim>\<open>freq\<close> outside its bounds. The two reads of
  \<^verbatim>\<open>xscale\<close> are at \<open>band\<close> and \<open>band + 1\<close>, inside the \<open>B + 1\<close> entries of the table
  for every \<open>band < B\<close>.
\<close>

definition compute_freq_band :: "nat \<Rightarrow> nat \<Rightarrow> real list \<Rightarrow> real list \<Rightarrow> nat \<Rightarrow> fval option" where
  "compute_freq_band N B freq xscale band =
     (let a = \<lceil>xscale ! band\<rceil>;
          b = \<lfloor>xscale ! (band + 1)\<rfloor>
      in do {
        n \<leftarrow> (if b < a
              then do { v \<leftarrow> freq_read freq b;
                        Some (0 + v * (xscale ! (band + 1) - xscale ! band)) }
              else do {
                n1 \<leftarrow> (if a > 0
                       then do { v \<leftarrow> freq_read freq (a - 1);
                                 Some (0 + v * (of_int a - xscale ! band)) }
                       else Some 0);
                n2 \<leftarrow> band_sum freq a b n1;
                (if b < int N
                 then do { v \<leftarrow> freq_read freq b;
                           Some (n2 + v * (xscale ! (band + 1) - of_int b)) }
                 else Some n2)
              });
        Some (fscale 20 (log10f (Fin (n * real B / real N / 12))))
      })"

subsection \<open>The bodies of the three output loops\<close>

text \<open>
  One iteration of \<^verbatim>\<open>fft_compute_lin\<close>. In
  \<^verbatim>\<open>data_out[i] += compute_freq_lin(...) * (max_val / 40.0)\<close> the quotient, the product
  and the sum with the prior entry are \<^verbatim>\<open>double\<close> operations, and the sum is stored back
  into the \<^verbatim>\<open>uint16_t\<close>; \<^verbatim>\<open>data_out[i] /= 2.0\<close> stores the \<^verbatim>\<open>double\<close> half; then the clamp.
\<close>

definition lin_step ::
  "(fval \<Rightarrow> 16 word) \<Rightarrow> real list \<Rightarrow> nat \<Rightarrow> 16 word \<Rightarrow> 16 word \<Rightarrow> nat \<Rightarrow> 16 word list \<Rightarrow> 16 word list" where
  "lin_step ub freq step max_val min_val i data_out =
     (let d1 = to_u16 ub (fadd round_double (Fin (real (unat (data_out ! i))))
                 (fmul round_double (compute_freq_lin freq step i)
                    (fdiv round_double (Fin (real (unat max_val))) (Fin 40))));
          d2 = to_u16 ub (fdiv round_double (Fin (real (unat d1))) (Fin 2))
      in data_out[i := clamp_u16 max_val min_val d2])"

text \<open>One iteration of \<^verbatim>\<open>fft_compute_log\<close>: \<^verbatim>\<open>20 * log10f(1 + v) * (max_val / 40.0)\<close> is
  added to the entry, with the exact arithmetic of the logarithmic path.\<close>

definition log_step ::
  "(fval \<Rightarrow> 16 word) \<Rightarrow> real list \<Rightarrow> nat \<Rightarrow> 16 word \<Rightarrow> 16 word \<Rightarrow> nat \<Rightarrow> 16 word list \<Rightarrow> 16 word list" where
  "log_step ub freq step max_val min_val i data_out =
     (let d1 = to_u16 ub (fshift (real (unat (data_out ! i)))
                 (fscale (real (unat max_val) / 40)
                    (fscale 20 (log10f (fshift 1 (compute_freq_lin freq step i))))));
          d2 = to_u16 ub (Fin (real (unat d1) / 2))
      in data_out[i := clamp_u16 max_val min_val d2])"

text \<open>
  One band of \<^verbatim>\<open>fft_compute_bands\<close>, from the new value \<open>x\<close>, the displayed value \<open>d\<close>
  and the counter \<open>dl\<close> (\<^verbatim>\<open>delay[i]\<close>, a \<^verbatim>\<open>char\<close>; \<^verbatim>\<open>BAND_DELAY\<close> is taken to fit one).
  The subtraction is done on \<^verbatim>\<open>int\<close> and its result stored into the \<^verbatim>\<open>uint16_t\<close>.
\<close>

definition band_step ::
  "(fval \<Rightarrow> 16 word) \<Rightarrow> int \<Rightarrow> int \<Rightarrow> 16 word \<Rightarrow> 16 word \<Rightarrow> fval \<Rightarrow> 16 word \<times> int \<Rightarrow> 16 word \<times> int" where
  "band_step ub fade hold max_val min_val x st =
     (let d = fst st; dl = snd st;
          d1 = (word_of_int (MAX_int 0 (uint d - (fade - dl))) :: 16 word);
          dl1 = (if dl \<noteq> 0 then dl - 1 else dl);
          d2 = (if fgt x (real (unat d1)) then to_u16 ub x else d1);
          dl2 = (if fgt x (real (unat d1)) then hold else dl1)
      in (clamp_u16 max_val min_val d2, dl2))"

subsection \<open>The butterfly network\<close>

text \<open>
  The three nested loops of \<^verbatim>\<open>fft_execute\<close>. \<open>rt\<close> is the twiddle table \<^verbatim>\<open>root\<close>, \<open>d\<close> the
  buffer \<^verbatim>\<open>data\<close> and \<open>N\<close> is \<^verbatim>\<open>FFT_N\<close>. For a power of two \<open>N\<close> every index they use is
  below \<open>N\<close> (below \<open>N / 2\<close> for the table).
\<close>

function fft_inner ::
  "complex list \<Rightarrow> nat \<Rightarrow> nat \<Rightarrow> nat \<Rightarrow> nat \<Rightarrow> nat \<Rightarrow> complex list \<Rightarrow> complex list" where
  "fft_inner rt half i g b r d =
     (if b < half
      then (let even_v = d ! (g + b);
                odd_v = d ! (g + b + half) * rt ! r;
                d1 = d[g + b := even_v + odd_v];
                d2 = d1[g + b + half := even_v - odd_v]
            in fft_inner rt half i g (b + 1) (r + i) d2)
      else d)"
  by pat_completeness auto
termination
  by (relation "measure (\<lambda>(rt, half, i, g, b, r, d). half - b)") auto

declare fft_inner.simps [simp del]

text \<open>The loop over the groups advances by \<^verbatim>\<open>half << 1\<close>. \<open>half\<close> starts at 1 and is only
  ever doubled, so the test \<open>0 < half\<close>, which makes the recursion total, never fails.\<close>

function fft_groups ::
  "nat \<Rightarrow> complex list \<Rightarrow> nat \<Rightarrow> nat \<Rightarrow> nat \<Rightarrow> complex list \<Rightarrow> complex list" where
  "fft_groups N rt half i g d =
     (if g < N \<and> 0 < half
      then fft_groups N rt half i (g + push_bit 1 half) (fft_inner rt half i g 0 0 d)
      else d)"
  by pat_completeness auto
termination
  by (relation "measure (\<lambda>(N, rt, half, i, g, d). N - g)") (auto simp: push_bit_eq_mult)

declare fft_groups.simps [simp del]

function fft_stages ::
  "nat \<Rightarrow> complex list \<Rightarrow> nat \<Rightarrow> nat \<Rightarrow> complex list \<Rightarrow> complex list" where
  "fft_stages N rt i half d =
     (if i > 0
      then fft_stages N rt (drop_bit 1 i) (push_bit 1 half) (fft_groups N rt half i 0 d)
      else d)"
  by pat_completeness auto
termination
  by (relation "measure (\<lambda>(N, rt, i, half, d). i)") (auto simp: drop_bit_eq_div)

declare fft_stages.simps [simp del]

text \<open>The amplitude of each frequency: one iteration of the second loop of
  \<^verbatim>\<open>fft_execute\<close> writes \<^verbatim>\<open>freq[i * 2]\<close> and \<^verbatim>\<open>freq[i * 2 + 1]\<close>. First on the finite values
  of the engine state, with exact arithmetic.\<close>

definition amp_step :: "nat \<Rightarrow> real \<Rightarrow> complex list \<Rightarrow> nat \<Rightarrow> real list \<Rightarrow> real list" where
  "amp_step N scale_factor d i fq =
     (let f1 = fq[i * 2 := 0.5 * cmod (d ! i + cnj (d ! (N - 1 - i))) / real N * scale_factor]
      in f1[i * 2 + 1 := 0.5 * cmod (d ! i - cnj (d ! (N - 1 - i))) / real N * scale_factor])"

text \<open>
  The same loop on floating-point values. What the butterfly network leaves in the
  buffer can be any \<^verbatim>\<open>float complex\<close> values, infinities and NaN included, and
  \<^verbatim>\<open>scale_factor\<close> is any \<^verbatim>\<open>float\<close>: here the buffer is a list of pairs of \<open>fval\<close> (real
  and imaginary part), the spectrum array a list of \<open>fval\<close>. The complex sum and
  difference are taken part by part in \<^verbatim>\<open>float\<close>, and \<^verbatim>\<open>conjf\<close> negates the imaginary
  part. \<^verbatim>\<open>cabsf\<close> comes from the C library, which does not fix its rounding: it is the
  parameter \<open>cabsf\<close> of the loop. \<open>amplitude\<close> is the expression
  \<^verbatim>\<open>0.5 * cabsf(z) / FFT_N * scale_factor\<close> that both assignments of the loop body share:
  the product with \<^verbatim>\<open>0.5\<close>, the quotient by \<^verbatim>\<open>FFT_N\<close> and the product with \<^verbatim>\<open>scale_factor\<close> are
  \<^verbatim>\<open>double\<close> operations, and the assignment converts to \<^verbatim>\<open>float\<close>. \<^verbatim>\<open>freq[0] /= 2.0\<close> follows
  the loop.
\<close>

type_synonym fcomplex = "fval \<times> fval"

definition conjf :: "fcomplex \<Rightarrow> fcomplex" where
  "conjf z = (fst z, fneg (snd z))"

definition caddf :: "fcomplex \<Rightarrow> fcomplex \<Rightarrow> fcomplex" where
  "caddf a b = (fadd round_float (fst a) (fst b), fadd round_float (snd a) (snd b))"

definition csubf :: "fcomplex \<Rightarrow> fcomplex \<Rightarrow> fcomplex" where
  "csubf a b = (fadd round_float (fst a) (fneg (fst b)), fadd round_float (snd a) (fneg (snd b)))"

definition amplitude :: "(fcomplex \<Rightarrow> fval) \<Rightarrow> nat \<Rightarrow> fval \<Rightarrow> fcomplex \<Rightarrow> fval" where
  "amplitude cabsf N scale_factor z =
     fcast round_float
       (fmul round_double
          (fdiv round_double (fmul round_double (Fin 0.5) (cabsf z)) (Fin (real N)))
          scale_factor)"

definition amp_step_ieee ::
  "(fcomplex \<Rightarrow> fval) \<Rightarrow> nat \<Rightarrow> fval \<Rightarrow> fcomplex list \<Rightarrow> nat \<Rightarrow> fval list \<Rightarrow> fval list" where
  "amp_step_ieee cabsf N scale_factor d i fq =
     (let f1 = fq[i * 2 := amplitude cabsf N scale_factor (caddf (d ! i) (conjf (d ! (N - 1 - i))))]
      in f1[i * 2 + 1 := amplitude cabsf N scale_factor (csubf (d ! i) (conjf (d ! (N - 1 - i))))])"

definition fft_execute_amplitudes ::
  "(fcomplex \<Rightarrow> fval) \<Rightarrow> nat \<Rightarrow> fval \<Rightarrow> fcomplex list \<Rightarrow> fval list \<Rightarrow> fval list" where
  "fft_execute_amplitudes cabsf N scale_factor d fq =
     (let f1 = fold (amp_step_ieee cabsf N scale_factor d) [0..<N div 2] fq
      in f1[0 := fcast round_float (fdiv round_double (f1 ! 0) (Fin 2))])"

text \<open>
  One \<^verbatim>\<open>cabsf\<close> to run the loop with: the magnitude rounded to the nearest \<^verbatim>\<open>float\<close>,
  \<open>+\<infinity>\<close> as soon as one part is infinite, and NaN when a part is a NaN and none is
  infinite.
\<close>

fun cabsf_nearest :: "fcomplex \<Rightarrow> fval" where
  "cabsf_nearest (Fin x, Fin y) = round_float (sqrt (x * x + y * y))"
| "cabsf_nearest (PosInf, b) = PosInf"
| "cabsf_nearest (NegInf, b) = PosInf"
| "cabsf_nearest (a, PosInf) = PosInf"
| "cabsf_nearest (a, NegInf) = PosInf"
| "cabsf_nearest (a, b) = NaN"

subsection \<open>Sample loading\<close>

text \<open>\<^verbatim>\<open>int16_t v = data_in[hi] << 8 | data_in[lo]\<close>: the two bytes make a 16-bit pattern,
  read as two's complement.\<close>

definition sample16 :: "8 word list \<Rightarrow> nat \<Rightarrow> nat \<Rightarrow> int" where
  "sample16 data_in hi lo =
     sint ((push_bit 8 (ucast (data_in ! hi)) OR ucast (data_in ! lo)) :: 16 word)"

subsection \<open>The engine state\<close>

text \<open>The static variables of the file, and the static array \<^verbatim>\<open>delay\<close> of
  \<^verbatim>\<open>fft_compute_bands\<close>. The table \<^verbatim>\<open>root\<close> is the field \<open>root_tbl\<close>, since \<open>root\<close> is a
  constant of HOL.\<close>

record fft_state =
  freq :: "real list"
  bitrev :: "nat list"
  window :: "real list"
  xscale :: "real list"
  data :: "complex list"
  root_tbl :: "complex list"
  generated :: bool
  delay :: "int list"

definition compute_fft_tables :: "fft_config \<Rightarrow> fft_state \<Rightarrow> fft_state" where
  "compute_fft_tables cfg s =
     s\<lparr>bitrev := bitrev_table (FFT_N cfg),
       window := window_table (FFT_N cfg),
       xscale := xscale_table (FFT_N cfg) (BAND_N cfg),
       root_tbl := root_table (FFT_N cfg)\<rparr>"

definition fft_init :: "fft_config \<Rightarrow> fft_state \<Rightarrow> fft_state" where
  "fft_init cfg s =
     (let s1 = s\<lparr>data := replicate (FFT_N cfg) 0\<rparr>
      in if \<not> generated s1 then (compute_fft_tables cfg s1)\<lparr>generated := True\<rparr> else s1)"

text \<open>The contents of the static storage when the program starts.\<close>

definition initial_state :: "fft_config \<Rightarrow> fft_state" where
  "initial_state cfg =
     \<lparr>freq = replicate (FFT_N cfg) 0,
      bitrev = replicate (FFT_N cfg) 0,
      window = replicate (FFT_N cfg * 2) 0,
      xscale = replicate (BAND_N cfg + 1) 0,
      data = replicate (FFT_N cfg) 0,
      root_tbl = replicate (FFT_N cfg div 2) 0,
      generated = False,
      delay = replicate (BAND_N cfg) 0\<rparr>"

subsection \<open>Operations on the engine state\<close>

text \<open>One iteration of each of the three loops of \<^verbatim>\<open>fft_load_data\<close>.\<close>

definition load_l :: "8 word list \<Rightarrow> nat \<Rightarrow> fft_state \<Rightarrow> fft_state" where
  "load_l data_in i s =
     (let data_re_l = sample16 data_in (i * 8 + 1) (i * 8);
          data_im_l = sample16 data_in (i * 8 + 5) (i * 8 + 4);
          data_re = real_of_int data_re_l * window s ! (i * 2);
          data_im = real_of_int data_im_l * window s ! (i * 2 + 1)
      in s\<lparr>data := (data s)[bitrev s ! i := Complex data_re data_im]\<rparr>)"

definition load_r :: "8 word list \<Rightarrow> nat \<Rightarrow> fft_state \<Rightarrow> fft_state" where
  "load_r data_in i s =
     (let data_re_r = sample16 data_in (i * 8 + 3) (i * 8 + 2);
          data_im_r = sample16 data_in (i * 8 + 7) (i * 8 + 6);
          data_re = real_of_int data_re_r * window s ! (i * 2);
          data_im = real_of_int data_im_r * window s ! (i * 2 + 1)
      in s\<lparr>data := (data s)[bitrev s ! i := Complex data_re data_im]\<rparr>)"

definition load_lr :: "8 word list \<Rightarrow> nat \<Rightarrow> fft_state \<Rightarrow> fft_state" where
  "load_lr data_in i s =
     (let data_re_l = sample16 data_in (i * 8 + 1) (i * 8);
          data_re_r = sample16 data_in (i * 8 + 3) (i * 8 + 2);
          data_im_l = sample16 data_in (i * 8 + 5) (i * 8 + 4);
          data_im_r = sample16 data_in (i * 8 + 7) (i * 8 + 6);
          data_re = real_of_int (data_re_l + data_re_r) / 2 * window s ! (i * 2);
          data_im = real_of_int (data_im_l + data_im_r) / 2 * window s ! (i * 2 + 1)
      in s\<lparr>data := (data s)[bitrev s ! i := Complex data_re data_im]\<rparr>)"

fun fft_load_data :: "fft_config \<Rightarrow> 8 word list \<Rightarrow> fft_channel_t \<Rightarrow> fft_state \<Rightarrow> fft_state" where
  "fft_load_data cfg data_in FFT_CHANNEL_L s = fold (load_l data_in) [0..<FFT_N cfg] s"
| "fft_load_data cfg data_in FFT_CHANNEL_R s = fold (load_r data_in) [0..<FFT_N cfg] s"
| "fft_load_data cfg data_in FFT_CHANNEL_LR s = fold (load_lr data_in) [0..<FFT_N cfg] s"
| "fft_load_data cfg data_in (FFT_CHANNEL_OTHER v) s = s"

definition fft_execute :: "fft_config \<Rightarrow> real \<Rightarrow> fft_state \<Rightarrow> fft_state" where
  "fft_execute cfg scale_factor s =
     (let d = fft_stages (FFT_N cfg) (root_tbl s) (drop_bit 1 (FFT_N cfg)) 1 (data s);
          f1 = fold (amp_step (FFT_N cfg) scale_factor d) [0..<FFT_N cfg div 2] (freq s);
          f2 = f1[0 := f1 ! 0 / 2]
      in s\<lparr>freq := f2, data := d\<rparr>)"

definition fft_compute_lin ::
  "(fval \<Rightarrow> 16 word) \<Rightarrow> fft_config \<Rightarrow> fft_state \<Rightarrow> 16 word list \<Rightarrow> 16 word \<Rightarrow> 16 word \<Rightarrow> 16 word list" where
  "fft_compute_lin ub cfg s data_out max_val min_val =
     fold (lin_step ub (freq s) (FFT_N cfg div FFT_OUT_N cfg) max_val min_val)
       [0..<FFT_OUT_N cfg] data_out"

definition fft_compute_log ::
  "(fval \<Rightarrow> 16 word) \<Rightarrow> fft_config \<Rightarrow> fft_state \<Rightarrow> 16 word list \<Rightarrow> 16 word \<Rightarrow> 16 word \<Rightarrow> 16 word list" where
  "fft_compute_log ub cfg s data_out max_val min_val =
     fold (log_step ub (freq s) (FFT_N cfg div FFT_OUT_N cfg) max_val min_val)
       [0..<FFT_OUT_N cfg] data_out"

text \<open>
  \<^verbatim>\<open>fft_compute_bands\<close> returns the output buffer and the state, whose \<open>delay\<close> is the
  function's static array. \<open>None\<close>: \<^verbatim>\<open>compute_freq_band\<close> has read outside \<^verbatim>\<open>freq\<close>.
\<close>

definition bands_iter ::
  "(fval \<Rightarrow> 16 word) \<Rightarrow> fft_config \<Rightarrow> 16 word \<Rightarrow> 16 word \<Rightarrow> nat
     \<Rightarrow> (16 word list \<times> fft_state) option \<Rightarrow> (16 word list \<times> fft_state) option" where
  "bands_iter ub cfg max_val min_val i acc =
     do {
       (data_out, s) \<leftarrow> acc;
       l \<leftarrow> compute_freq_band (FFT_N cfg) (BAND_N cfg) (freq s) (xscale s) i;
       let x = fscale (real (unat max_val) / 64) (fshift 40 l);
       let r = band_step ub (BAND_FADE cfg) (BAND_DELAY cfg) max_val min_val x
                 (data_out ! i, delay s ! i);
       Some (data_out[i := fst r], s\<lparr>delay := (delay s)[i := snd r]\<rparr>)
     }"

definition fft_compute_bands ::
  "(fval \<Rightarrow> 16 word) \<Rightarrow> fft_config \<Rightarrow> fft_state \<Rightarrow> 16 word list \<Rightarrow> 16 word \<Rightarrow> 16 word
     \<Rightarrow> (16 word list \<times> fft_state) option" where
  "fft_compute_bands ub cfg s data_out max_val min_val =
     fold (bands_iter ub cfg max_val min_val) [0..<BAND_N cfg] (Some (data_out, s))"

subsection \<open>Reference notions used in the statements\<close>

text \<open>Reversal of the \<open>n\<close> low bits of \<open>x\<close>, pushed onto \<open>y\<close>: what \<open>n\<close> iterations of
  the loop of \<^verbatim>\<open>bit_reverse\<close> compute.\<close>

fun rev_bits :: "nat \<Rightarrow> nat \<Rightarrow> nat \<Rightarrow> nat" where
  "rev_bits 0 x y = y"
| "rev_bits (Suc n) x y = rev_bits n (x div 2) (2 * y + x mod 2)"

text \<open>
  The engine states that a program can be in once it has called \<^verbatim>\<open>fft_init\<close>: the
  state after a call of \<^verbatim>\<open>fft_init\<close> on the initial storage, and every state that one
  of the operations produces from such a state.
\<close>

inductive reachable :: "fft_config \<Rightarrow> fft_state \<Rightarrow> bool" for cfg :: fft_config where
  first: "reachable cfg (fft_init cfg (initial_state cfg))"
| again: "reachable cfg s \<Longrightarrow> reachable cfg (fft_init cfg s)"
| load: "reachable cfg s \<Longrightarrow> reachable cfg (fft_load_data cfg data_in channel s)"
| execute: "reachable cfg s \<Longrightarrow> reachable cfg (fft_execute cfg scale_factor s)"
| bands: "reachable cfg s
    \<Longrightarrow> fft_compute_bands ub cfg s data_out max_val min_val = Some (data_out', s')
    \<Longrightarrow> reachable cfg s'"

text \<open>A small configuration and a raw block for it, on which the statements below are
  run: two sample slots, the left real sample of the first slot is 1, all else 0.\<close>

definition cfg2 :: fft_config where
  "cfg2 = \<lparr>FFT_N = 2, FFT_OUT_N = 1, BAND_N = 1, BAND_FADE = 2, BAND_DELAY = 2\<rparr>"

definition block2 :: "8 word list" where
  "block2 = 1 # replicate 15 0"

text \<open>The reference transform: the discrete Fourier transform of \<open>xs\<close> at bin \<open>k\<close>,
  by its defining sum.\<close>

definition dft :: "complex list \<Rightarrow> nat \<Rightarrow> complex" where
  "dft xs k = (\<Sum>n<length xs. xs ! n * cis (- 2 * pi * real k * real n / real (length xs)))"

text \<open>The order in which \<^verbatim>\<open>fft_load_data\<close> fills the buffer: sample \<open>i\<close> goes to
  \<^verbatim>\<open>data[bitrev[i]]\<close>.\<close>

definition bitrev_permute :: "nat list \<Rightarrow> complex list \<Rightarrow> complex list" where
  "bitrev_permute br xs = fold (\<lambda>i d. d[br ! i := xs ! i]) [0..<length xs] (replicate (length xs) 0)"

definition cfg4 :: fft_config where
  "cfg4 = \<lparr>FFT_N = 4, FFT_OUT_N = 2, BAND_N = 2, BAND_FADE = 2, BAND_DELAY = 2\<rparr>"

text \<open>The sum of a list of \<^verbatim>\<open>float\<close> values, accumulated from the left in \<^verbatim>\<open>float\<close>, from
  \<open>0\<close>.\<close>

definition float_sum :: "real list \<Rightarrow> fval" where
  "float_sum xs = foldl (\<lambda>n x. fadd round_float n (Fin x)) (Fin 0) xs"

text \<open>The value that claim C2 states for an entry of \<^verbatim>\<open>fft_compute_lin\<close>, in the words of
  the specification: prior value plus average scaled by \<open>max_val / 40\<close>, the sum halved,
  then clamped. It is compared with the code below.\<close>

definition lin_value_as_claimed :: "real \<Rightarrow> real \<Rightarrow> real \<Rightarrow> real \<Rightarrow> real" where
  "lin_value_as_claimed prior avg max_val min_val =
     min max_val (max min_val ((prior + avg * (max_val / 40)) / 2))"

subsection \<open>Frames\<close>





section \<open>Rounding\<close>

lemma pow2_powr: "pow2 k = 2 powr real_of_int k"
proof (cases "0 \<le> k")
  case True
  then have "2 powr real_of_int k = 2 powr real (nat k)" by simp
  also have "\<dots> = 2 ^ nat k" by (simp add: powr_realpow)
  finally show ?thesis using True by (simp add: pow2_def)
next
  case False
  then have "real_of_int k = - real (nat (- k))" by simp
  then have "2 powr real_of_int k = 2 powr (- real (nat (- k)))" by (rule arg_cong)
  also have "\<dots> = inverse (2 powr real (nat (- k)))" by (rule powr_minus)
  also have "2 powr real (nat (- k)) = 2 ^ nat (- k)" by (simp add: powr_realpow)
  finally show ?thesis using False by (simp add: pow2_def inverse_eq_divide)
qed

lemma pow2_pos: "0 < pow2 k"
  by (simp add: pow2_powr)

lemma pow2_add: "pow2 (j + k) = pow2 j * pow2 k"
  by (simp add: pow2_powr powr_add)

lemma pow2_nonneg_int: "0 \<le> k \<Longrightarrow> pow2 k = of_int (2 ^ nat k)"
  by (simp add: pow2_def)

lemma floor_log2:
  assumes "pow2 e \<le> x" and "x < pow2 (e + 1)"
  shows "\<lfloor>log 2 x\<rfloor> = e"
proof -
  have x: "0 < x" using assms(1) pow2_pos [of e] by linarith
  have "real_of_int e \<le> log 2 x"
    using assms(1) x by (simp add: pow2_powr le_log_iff)
  moreover have "log 2 x < real_of_int (e + 1)"
    using assms(2) x by (simp add: pow2_powr log_less_iff)
  ultimately show ?thesis by linarith
qed

lemma round_even_int: "round_even (of_int m) = m"
  by (simp add: round_even_def)

lemma round_even_nonneg: "0 \<le> q \<Longrightarrow> 0 \<le> round_even q"
  by (auto simp: round_even_def Let_def)

lemma round_even_nonpos: "q \<le> 0 \<Longrightarrow> round_even q \<le> 0"
proof -
  assume q: "q \<le> 0"
  show ?thesis
  proof (cases "q = 0")
    case True
    then show ?thesis by (simp add: round_even_def)
  next
    case False
    with q have neg: "q < 0" by simp
    then have f: "\<lfloor>q\<rfloor> \<le> - 1" by linarith
    have "round_even q \<le> \<lfloor>q\<rfloor> + 1"
      by (simp add: round_even_def Let_def)
    with f show ?thesis by linarith
  qed
qed

lemma round_to_unfold:
  "x \<noteq> 0 \<Longrightarrow> u = pow2 (max \<lfloor>log 2 \<bar>x\<bar>\<rfloor> emin - (int p - 1)) \<Longrightarrow>
   round_to p emin emax x =
     (if pow2 (emax + 1) \<le> \<bar>of_int (round_even (x / u)) * u\<bar>
      then (if 0 < x then PosInf else NegInf)
      else Fin (of_int (round_even (x / u)) * u))"
  unfolding round_to_def Let_def by (simp only: if_False)

lemma round_to_nonneg:
  assumes "0 \<le> x"
  shows "fge0 (round_to p emin emax x)"
proof (cases "x = 0")
  case True
  then show ?thesis by (simp add: round_to_def fge0_def)
next
  case False
  with assms have x: "0 < x" by simp
  define u where "u = pow2 (max \<lfloor>log 2 \<bar>x\<bar>\<rfloor> emin - (int p - 1))"
  have u: "0 < u" by (simp add: u_def pow2_pos)
  then have "0 \<le> x / u" using x by simp
  then have "0 \<le> round_even (x / u)" by (rule round_even_nonneg)
  then have "0 \<le> real_of_int (round_even (x / u)) * u" using u by simp
  then show ?thesis
    unfolding round_to_unfold [OF False u_def] using x by (simp add: fge0_def)
qed

lemma round_to_nonpos:
  assumes "x \<le> 0"
  shows "\<not> flt0 (round_to p emin emax x) \<Longrightarrow> round_to p emin emax x = Fin 0"
proof (cases "x = 0")
  case True
  then show ?thesis by (simp add: round_to_def)
next
  case False
  assume nn: "\<not> flt0 (round_to p emin emax x)"
  from False assms have x: "x < 0" by simp
  define u where "u = pow2 (max \<lfloor>log 2 \<bar>x\<bar>\<rfloor> emin - (int p - 1))"
  have u: "0 < u" by (simp add: u_def pow2_pos)
  then have "x / u \<le> 0" using x by (simp add: divide_le_0_iff)
  then have "round_even (x / u) \<le> 0" by (rule round_even_nonpos)
  then have le: "real_of_int (round_even (x / u)) * u \<le> 0" using u by (simp add: mult_le_0_iff)
  show ?thesis
    using nn le x unfolding round_to_unfold [OF False u_def]
    by (simp add: flt0_def split: if_splits)
qed

lemma round_to_eval:
  assumes "pow2 e \<le> \<bar>x\<bar>" and "\<bar>x\<bar> < pow2 (e + 1)" and "emin \<le> e"
  shows "round_to p emin emax x =
     (if pow2 (emax + 1) \<le> \<bar>of_int (round_even (x / pow2 (e - (int p - 1)))) * pow2 (e - (int p - 1))\<bar>
      then (if 0 < x then PosInf else NegInf)
      else Fin (of_int (round_even (x / pow2 (e - (int p - 1)))) * pow2 (e - (int p - 1))))"
proof -
  have "0 < \<bar>x\<bar>" using assms(1) pow2_pos [of e] by linarith
  then have nz: "x \<noteq> 0" by simp
  have "\<lfloor>log 2 \<bar>x\<bar>\<rfloor> = e" using assms(1,2) by (rule floor_log2)
  then have "max \<lfloor>log 2 \<bar>x\<bar>\<rfloor> emin = e" using assms(3) by simp
  then have "pow2 (e - (int p - 1)) = pow2 (max \<lfloor>log 2 \<bar>x\<bar>\<rfloor> emin - (int p - 1))" by simp
  then show ?thesis by (rule round_to_unfold [OF nz])
qed

lemma round_to_representable:
  assumes x: "x = of_int m * pow2 k" and m: "\<bar>m\<bar> < 2 ^ p"
    and k: "emin - (int p - 1) \<le> k" and small: "\<bar>x\<bar> < pow2 (emax + 1)"
  shows "round_to p emin emax x = Fin x"
proof (cases "x = 0")
  case True
  then show ?thesis by (simp add: round_to_def)
next
  case False
  define e where "e = max \<lfloor>log 2 \<bar>x\<bar>\<rfloor> emin"
  define j where "j = k - (e - (int p - 1))"
  define u where "u = pow2 (e - (int p - 1))"
  have u: "0 < u" by (simp add: u_def pow2_pos)
  have ax: "0 < \<bar>x\<bar>" using False by simp
  have "\<bar>x\<bar> = real_of_int \<bar>m\<bar> * pow2 k"
    using pow2_pos [of k] by (simp add: x abs_mult)
  also have "\<dots> < 2 ^ p * pow2 k"
  proof -
    have "real_of_int \<bar>m\<bar> < real_of_int (2 ^ p)" using m by linarith
    then have "real_of_int \<bar>m\<bar> < 2 ^ p" by simp
    then show ?thesis using pow2_pos [of k] by simp
  qed
  also have "\<dots> = pow2 (int p + k)"
    unfolding pow2_add by (simp add: pow2_def)
  finally have "\<bar>x\<bar> < pow2 (int p + k)" .
  then have "log 2 \<bar>x\<bar> < real_of_int (int p + k)"
    using ax by (simp add: pow2_powr log_less_iff)
  then have "\<lfloor>log 2 \<bar>x\<bar>\<rfloor> \<le> int p + k - 1" by linarith
  then have "e \<le> int p + k - 1" using k by (simp add: e_def)
  then have j0: "0 \<le> j" by (simp add: j_def)
  have "k = j + (e - (int p - 1))" by (simp add: j_def)
  then have "pow2 k = pow2 j * u"
    unfolding u_def pow2_add [symmetric] by (rule arg_cong)
  then have "x / u = of_int m * pow2 j"
    using u by (simp add: x)
  also have "\<dots> = of_int (m * 2 ^ nat j)"
    using j0 by (simp add: pow2_def)
  finally have q: "x / u = of_int (m * 2 ^ nat j)" .
  have "of_int (round_even (x / u)) * u = (x / u) * u"
    unfolding q round_even_int ..
  also have "\<dots> = x" using u by simp
  finally have y: "of_int (round_even (x / u)) * u = x" .
  have ue: "u = pow2 (max \<lfloor>log 2 \<bar>x\<bar>\<rfloor> emin - (int p - 1))"
    by (simp add: u_def e_def)
  show ?thesis
    unfolding round_to_unfold [OF False ue] y using small by simp
qed

lemma round_double_dyadic:
  "x = of_int m * pow2 k \<Longrightarrow> \<bar>m\<bar> < 2 ^ 53 \<Longrightarrow> - 1074 \<le> k \<Longrightarrow> \<bar>x\<bar> < pow2 1024
     \<Longrightarrow> round_double x = Fin x"
  unfolding round_double_def by (rule round_to_representable) simp_all

lemma round_float_dyadic:
  "x = of_int m * pow2 k \<Longrightarrow> \<bar>m\<bar> < 2 ^ 24 \<Longrightarrow> - 149 \<le> k \<Longrightarrow> \<bar>x\<bar> < pow2 128
     \<Longrightarrow> round_float x = Fin x"
  unfolding round_float_def by (rule round_to_representable) simp_all

lemma round_to_0: "round_to p emin emax 0 = Fin 0"
  by (simp add: round_to_def)

lemma round_float_0: "round_float 0 = Fin 0"
  by (simp add: round_float_def round_to_0)

lemma round_double_0: "round_double 0 = Fin 0"
  by (simp add: round_double_def round_to_0)

lemma round_float_1: "round_float 1 = Fin 1"
  by (rule round_float_dyadic [where m = 1 and k = 0]) (simp_all add: pow2_def)

lemma round_double_1: "round_double 1 = Fin 1"
  by (rule round_double_dyadic [where m = 1 and k = 0]) (simp_all add: pow2_def)

lemma round_float_nat:
  assumes "n < 2 ^ 24"
  shows "round_float (real n) = Fin (real n)"
proof (rule round_float_dyadic [where m = "int n" and k = 0])
  show "real n = real_of_int (int n) * pow2 0" by (simp add: pow2_def)
  show "\<bar>int n\<bar> < 2 ^ 24" using assms by simp
  show "- 149 \<le> (0 :: int)" by simp
  have "real n < 2 ^ 24" using assms by (metis of_nat_less_iff of_nat_numeral of_nat_power)
  also have "\<dots> < pow2 128" by (simp add: pow2_def)
  finally show "\<bar>real n\<bar> < pow2 128" by simp
qed

lemma round_double_nat:
  assumes "n < 2 ^ 53"
  shows "round_double (real n) = Fin (real n)"
proof (rule round_double_dyadic [where m = "int n" and k = 0])
  show "real n = real_of_int (int n) * pow2 0" by (simp add: pow2_def)
  show "\<bar>int n\<bar> < 2 ^ 53" using assms by simp
  show "- 1074 \<le> (0 :: int)" by simp
  have "real n < 2 ^ 53" using assms by (metis of_nat_less_iff of_nat_numeral of_nat_power)
  also have "\<dots> < pow2 1024" by (simp add: pow2_def)
  finally show "\<bar>real n\<bar> < pow2 1024" by simp
qed

lemma round_double_half_nat:
  assumes "n < 2 ^ 53"
  shows "round_double (real n / 2) = Fin (real n / 2)"
proof (rule round_double_dyadic [where m = "int n" and k = "- 1"])
  show "real n / 2 = real_of_int (int n) * pow2 (- 1)" by (simp add: pow2_def)
  show "\<bar>int n\<bar> < 2 ^ 53" using assms by simp
  show "- 1074 \<le> (- 1 :: int)" by simp
  have "real n < 2 ^ 53" using assms by (metis of_nat_less_iff of_nat_numeral of_nat_power)
  also have "\<dots> < pow2 1024" by (simp add: pow2_def)
  finally show "\<bar>real n / 2\<bar> < pow2 1024" by simp
qed

lemma round_float_numeral:
  "numeral n < (2 :: nat) ^ 24 \<Longrightarrow> round_float (numeral n) = Fin (numeral n)"
  using round_float_nat [of "numeral n"] by (simp only: of_nat_numeral)

lemma round_double_numeral:
  "numeral n < (2 :: nat) ^ 53 \<Longrightarrow> round_double (numeral n) = Fin (numeral n)"
  using round_double_nat [of "numeral n"] by (simp only: of_nat_numeral)

lemma fge0_round_float: "0 \<le> x \<Longrightarrow> fge0 (round_float x)"
  unfolding round_float_def by (rule round_to_nonneg)

lemma fge0_round_double: "0 \<le> x \<Longrightarrow> fge0 (round_double x)"
  unfolding round_double_def by (rule round_to_nonneg)

section \<open>The bit-reversal table\<close>

lemma shift_or_bit: "push_bit 1 y OR (x AND 1) = 2 * y + x mod (2::nat)"
proof (cases "even x")
  case True
  then show ?thesis by (simp add: and_one_eq)
next
  case False
  then have "x mod 2 = 1" by (simp add: odd_iff_mod_2_eq_one)
  then show ?thesis by (simp add: and_one_eq or_Suc_0_eq)
qed

lemma bit_reverse_loop_step:
  "bit_reverse_loop i x y =
     (if i > 0 then bit_reverse_loop (i div 2) (x div 2) (2 * y + x mod 2) else y)"
  by (subst bit_reverse_loop.simps, unfold shift_or_bit) (simp add: drop_bit_eq_div)

lemma bit_reverse_loop_pow2: "bit_reverse_loop (2 ^ m) x y = rev_bits (Suc m) x y"
proof (induction m arbitrary: x y)
  case 0
  have "bit_reverse_loop (2 ^ 0) x y = bit_reverse_loop 0 (x div 2) (2 * y + x mod 2)"
    by (subst bit_reverse_loop_step) simp
  also have "\<dots> = 2 * y + x mod 2"
    by (subst bit_reverse_loop_step) simp
  finally show ?case by simp
next
  case (Suc m)
  have "bit_reverse_loop (2 ^ Suc m) x y
      = bit_reverse_loop (2 ^ m) (x div 2) (2 * y + x mod 2)"
    by (subst bit_reverse_loop_step) simp
  then show ?case by (simp add: Suc.IH)
qed

lemma bit_reverse_pow2: "bit_reverse (2 ^ k) x = rev_bits k x 0"
proof (cases k)
  case 0
  have "bit_reverse_loop 0 x 0 = 0"
    by (subst bit_reverse_loop_step) simp
  with 0 show ?thesis by (simp add: bit_reverse_def drop_bit_eq_div)
next
  case (Suc m)
  then show ?thesis
    using bit_reverse_loop_pow2 [of m x 0] by (simp add: bit_reverse_def drop_bit_eq_div)
qed

lemma rev_bits_acc: "rev_bits n x y = y * 2 ^ n + rev_bits n x 0"
proof (induction n arbitrary: x y)
  case 0
  show ?case by simp
next
  case (Suc n)
  have "rev_bits (Suc n) x y = (2 * y + x mod 2) * 2 ^ n + rev_bits n (x div 2) 0"
    using Suc.IH [of "x div 2" "2 * y + x mod 2"] by simp
  moreover have "rev_bits (Suc n) x 0 = (x mod 2) * 2 ^ n + rev_bits n (x div 2) 0"
    using Suc.IH [of "x div 2" "x mod 2"] by simp
  ultimately show ?case by (simp add: algebra_simps)
qed

lemma rev_bits_low: "rev_bits (Suc n) x 0 = (x mod 2) * 2 ^ n + rev_bits n (x div 2) 0"
  using rev_bits_acc [of n "x div 2" "x mod 2"] by simp

lemma rev_bits_less: "rev_bits n x 0 < 2 ^ n"
proof (induction n arbitrary: x)
  case 0
  show ?case by simp
next
  case (Suc n)
  have "rev_bits n (x div 2) 0 < 2 ^ n" by (rule Suc.IH)
  moreover have "x mod 2 = 0 \<or> x mod 2 = 1"
    by presburger
  ultimately have "(x mod 2) * 2 ^ n + rev_bits n (x div 2) 0 < 2 ^ Suc n"
    by auto
  then show ?case by (simp only: rev_bits_low)
qed

lemma rev_bits_top: "rev_bits (Suc n) x 0 = 2 * rev_bits n x 0 + (x div 2 ^ n) mod 2"
proof (induction n arbitrary: x)
  case 0
  show ?case by simp
next
  case (Suc n)
  have "rev_bits (Suc (Suc n)) x 0 = (x mod 2) * 2 ^ Suc n + rev_bits (Suc n) (x div 2) 0"
    by (rule rev_bits_low)
  also have "rev_bits (Suc n) (x div 2) 0
      = 2 * rev_bits n (x div 2) 0 + (x div 2 div 2 ^ n) mod 2"
    by (rule Suc.IH)
  also have "x div 2 div 2 ^ n = x div 2 ^ Suc n"
    by (simp add: div_mult2_eq)
  finally have "rev_bits (Suc (Suc n)) x 0
      = 2 * ((x mod 2) * 2 ^ n + rev_bits n (x div 2) 0) + (x div 2 ^ Suc n) mod 2"
    by (simp add: algebra_simps)
  then show ?case by (simp only: rev_bits_low [of n x])
qed

lemma rev_bits_involution: "rev_bits n (rev_bits n x 0) 0 = x mod 2 ^ n"
proof (induction n arbitrary: x)
  case 0
  show ?case by simp
next
  case (Suc n)
  define z where "z = rev_bits (Suc n) x 0"
  define b where "b = (x div 2 ^ n) mod 2"
  have z: "z = 2 * rev_bits n x 0 + b"
    unfolding z_def b_def by (rule rev_bits_top)
  have "b < 2" by (simp add: b_def)
  then have zmod: "z mod 2 = b" and zdiv: "z div 2 = rev_bits n x 0"
    by (simp_all add: z)
  have "rev_bits (Suc n) z 0 = (z mod 2) * 2 ^ n + rev_bits n (z div 2) 0"
    by (rule rev_bits_low)
  also have "\<dots> = b * 2 ^ n + x mod 2 ^ n"
    by (simp only: zmod zdiv Suc.IH)
  also have "\<dots> = x mod 2 ^ Suc n"
  proof -
    have "x mod (2 ^ n * 2) = 2 ^ n * (x div 2 ^ n mod 2) + x mod 2 ^ n"
      by (rule mod_mult2_eq)
    then show ?thesis by (simp add: b_def mult.commute)
  qed
  finally show ?case by (simp only: z_def)
qed

lemma bit_reverse_less: "x < 2 ^ k \<Longrightarrow> bit_reverse (2 ^ k) x < 2 ^ k"
  by (simp add: bit_reverse_pow2 rev_bits_less)

lemma bit_reverse_involution: "x < 2 ^ k \<Longrightarrow> bit_reverse (2 ^ k) (bit_reverse (2 ^ k) x) = x"
  by (simp add: bit_reverse_pow2 rev_bits_involution)

lemma rev_bits_bit: "bit (rev_bits n x 0) j \<longleftrightarrow> j < n \<and> bit x (n - 1 - j)"
proof (induction n arbitrary: j)
  case 0
  show ?case by simp
next
  case (Suc n)
  define r where "r = rev_bits n x 0"
  define c where "c = (x div 2 ^ n) mod 2"
  have z: "rev_bits (Suc n) x 0 = 2 * r + c"
    unfolding r_def c_def by (rule rev_bits_top)
  have c2: "c < 2" by (simp add: c_def)
  show ?case
  proof (cases j)
    case 0
    have "bit (2 * r + c) 0 \<longleftrightarrow> odd c" by (simp add: bit_0)
    also have "\<dots> \<longleftrightarrow> bit x n"
      by (simp add: c_def bit_iff_odd)
    finally show ?thesis by (simp only: z 0) simp
  next
    case (Suc i)
    have "(2 * r + c) div 2 = r" using c2 by simp
    then have "bit (2 * r + c) (Suc i) \<longleftrightarrow> bit r i"
      by (simp add: bit_Suc)
    also have "\<dots> \<longleftrightarrow> i < n \<and> bit x (n - 1 - i)"
      unfolding r_def by (rule Suc.IH)
    finally show ?thesis by (simp only: z Suc) simp
  qed
qed

lemma bit_reverse_bit:
  "bit (bit_reverse (2 ^ k) x) j \<longleftrightarrow> j < k \<and> bit x (k - 1 - j)"
  by (simp only: bit_reverse_pow2 rev_bits_bit)

text \<open>
  Claim C9. For a power of two \<open>N = 2 ^ k\<close> the table \<^verbatim>\<open>bitrev\<close> built by
  \<^verbatim>\<open>compute_fft_tables\<close> has \<open>N\<close> entries, all of them below \<open>N\<close>; entry \<open>i\<close> is \<open>i\<close> with its
  \<open>k\<close> low bits reversed (bit \<open>j\<close> of the entry is bit \<open>k - 1 - j\<close> of \<open>i\<close>); the table is
  its own inverse, \<open>bitrev[bitrev[i]] = i\<close> for every \<open>i < N\<close>; and it is a bijection on
  \<open>0..N-1\<close>.
\<close>

theorem bitrev_table_bijection:
  assumes "N = 2 ^ k" and "i < N"
  shows "length (bitrev_table N) = N
       \<and> bitrev_table N ! i < N
       \<and> (\<forall>j. bit (bitrev_table N ! i) j \<longleftrightarrow> j < k \<and> bit i (k - 1 - j))
       \<and> bitrev_table N ! (bitrev_table N ! i) = i
       \<and> bij_betw (\<lambda>j. bitrev_table N ! j) {0..<N} {0..<N}"
proof -
  have nth: "bitrev_table N ! j = bit_reverse N j" if "j < N" for j
    using that by (simp add: bitrev_table_def)
  have less: "bit_reverse N j < N" if "j < N" for j
    using that assms(1) by (simp add: bit_reverse_less)
  have inv: "bit_reverse N (bit_reverse N j) = j" if "j < N" for j
    using that assms(1) by (simp add: bit_reverse_involution)
  have bits: "\<forall>j. bit (bitrev_table N ! i) j \<longleftrightarrow> j < k \<and> bit i (k - 1 - j)"
  proof -
    have "bitrev_table N ! i = bit_reverse (2 ^ k) i"
      using nth [OF assms(2)] assms(1) by simp
    then show ?thesis by (simp add: bit_reverse_bit)
  qed
  have "bij_betw (\<lambda>j. bitrev_table N ! j) {0..<N} {0..<N}"
    by (rule bij_betw_byWitness [where f' = "\<lambda>j. bitrev_table N ! j"])
       (auto simp: nth less inv)
  then show ?thesis
    using assms(2) bits by (simp add: nth less inv bitrev_table_def)
qed

theorem bitrev_table_bijection_witness:
  "(4::nat) = 2 ^ 2 \<and> (1::nat) < 4
     \<and> length (bitrev_table 4) = 4
     \<and> bitrev_table 4 ! 1 = 2
     \<and> bit (bitrev_table 4 ! 1) 1 = bit (1::nat) 0
     \<and> bitrev_table 4 ! (bitrev_table 4 ! 1) = 1
     \<and> bij_betw (\<lambda>j. bitrev_table 4 ! j) {0..<4} {0..<4}"
proof -
  have t: "bitrev_table 4 = [0, 2, 1, 3]"
    by code_simp
  have w: "length (bitrev_table 4) = 4
       \<and> bitrev_table 4 ! 1 < 4
       \<and> (\<forall>j. bit (bitrev_table 4 ! 1) j \<longleftrightarrow> j < 2 \<and> bit (1::nat) (2 - 1 - j))
       \<and> bitrev_table 4 ! (bitrev_table 4 ! 1) = 1
       \<and> bij_betw (\<lambda>j. bitrev_table 4 ! j) {0..<4} {0..<4}"
    using bitrev_table_bijection [of 4 2 1] by simp
  then have "bit (bitrev_table 4 ! 1) 1 = bit (1::nat) 0" by simp
  with w show ?thesis by (simp add: t)
qed

section \<open>Sample loading with an unknown channel\<close>

text \<open>
  Claim C8. A channel selector that is none of left, right and mixed makes
  \<^verbatim>\<open>fft_load_data\<close> return without a write: the whole engine state, the time-domain
  buffer included, is what it was, whatever the raw block holds.
\<close>

theorem fft_load_data_unknown_channel:
  assumes "channel \<noteq> FFT_CHANNEL_L" and "channel \<noteq> FFT_CHANNEL_R"
    and "channel \<noteq> FFT_CHANNEL_LR"
  shows "fft_load_data cfg data_in channel s = s"
  using assms by (cases channel) simp_all

theorem fft_load_data_unknown_channel_witness:
  "FFT_CHANNEL_OTHER 3 \<noteq> FFT_CHANNEL_L \<and> FFT_CHANNEL_OTHER 3 \<noteq> FFT_CHANNEL_R
     \<and> FFT_CHANNEL_OTHER 3 \<noteq> FFT_CHANNEL_LR
     \<and> fft_load_data cfg2 block2 (FFT_CHANNEL_OTHER 3) (fft_init cfg2 (initial_state cfg2))
         = fft_init cfg2 (initial_state cfg2)"
  using fft_load_data_unknown_channel
    [of "FFT_CHANNEL_OTHER 3" cfg2 block2 "fft_init cfg2 (initial_state cfg2)"]
  by simp

section \<open>Initialisation\<close>

lemma generated_fft_init: "generated (fft_init cfg s)"
  by (simp add: fft_init_def Let_def compute_fft_tables_def)

lemma generated_load_l: "generated (fold (load_l data_in) xs s) = generated s"
  by (induction xs arbitrary: s) (simp_all add: load_l_def Let_def)

lemma generated_load_r: "generated (fold (load_r data_in) xs s) = generated s"
  by (induction xs arbitrary: s) (simp_all add: load_r_def Let_def)

lemma generated_load_lr: "generated (fold (load_lr data_in) xs s) = generated s"
  by (induction xs arbitrary: s) (simp_all add: load_lr_def Let_def)

lemma generated_fft_load_data: "generated (fft_load_data cfg data_in channel s) = generated s"
  by (cases channel) (simp_all add: generated_load_l generated_load_r generated_load_lr)

lemma generated_fft_execute: "generated (fft_execute cfg scale_factor s) = generated s"
  by (simp add: fft_execute_def Let_def)

lemma generated_bands_fold:
  "fold (bands_iter ub cfg max_val min_val) xs (Some (out, s)) = Some (out', s')
     \<Longrightarrow> generated s' = generated s"
proof (induction xs arbitrary: out s)
  case Nil
  then show ?case by simp
next
  case (Cons i xs)
  show ?case
  proof (cases "bands_iter ub cfg max_val min_val i (Some (out, s))")
    case None
    have "fold (bands_iter ub cfg max_val min_val) xs None = None"
      by (induction xs) (simp_all add: bands_iter_def)
    with None Cons.prems show ?thesis by simp
  next
    case (Some r)
    obtain out1 s1 where r: "r = (out1, s1)" by (cases r)
    from Some r have "generated s1 = generated s"
      by (auto simp: bands_iter_def Let_def split: bind_splits)
    moreover from Cons.prems Some r
    have "fold (bands_iter ub cfg max_val min_val) xs (Some (out1, s1)) = Some (out', s')"
      by simp
    then have "generated s' = generated s1" by (rule Cons.IH)
    ultimately show ?thesis by simp
  qed
qed

lemma reachable_generated: "reachable cfg s \<Longrightarrow> generated s"
proof (induction rule: reachable.induct)
  case first
  show ?case by (rule generated_fft_init)
next
  case (again s)
  show ?case by (rule generated_fft_init)
next
  case (load s data_in channel)
  then show ?case by (simp add: generated_fft_load_data)
next
  case (execute s scale_factor)
  then show ?case by (simp add: generated_fft_execute)
next
  case (bands s ub data_out max_val min_val data_out' s')
  then show ?case
    using generated_bands_fold [of ub cfg max_val min_val "[0..<BAND_N cfg]" data_out s data_out' s']
    by (simp add: fft_compute_bands_def)
qed

text \<open>
  Claim C4, as amended. \<^verbatim>\<open>fft_init\<close> clears the time-domain buffer before it looks at
  the flag. In every state reachable after a first call, a further call of \<^verbatim>\<open>fft_init\<close>
  leaves the four tables, the spectrum, the decay counters and the flag as they are and
  sets the \<open>FFT_N\<close> entries of the time-domain buffer to zero. Calling it twice in a row
  is the same as calling it once.
\<close>

theorem fft_init_second_call:
  assumes "reachable cfg s"
  shows "fft_init cfg s = s\<lparr>data := replicate (FFT_N cfg) 0\<rparr>
       \<and> fft_init cfg (fft_init cfg s) = fft_init cfg s"
proof -
  have g: "generated s" using assms by (rule reachable_generated)
  then have one: "fft_init cfg s = s\<lparr>data := replicate (FFT_N cfg) 0\<rparr>"
    by (simp add: fft_init_def Let_def)
  have "fft_init cfg (fft_init cfg s) = fft_init cfg s"
    by (simp add: one) (simp add: fft_init_def Let_def g)
  with one show ?thesis by simp
qed

lemma upt_2: "[0..<2] = [0, Suc 0]"
  by (simp add: upt_rec)

lemma bitrev_table_2: "bitrev_table 2 = [0, 1]"
  by code_simp

lemma sample16_block2_re: "sample16 block2 (Suc 0) 0 = 1"
  by (simp add: sample16_def block2_def)

lemma sample16_block2_im: "sample16 block2 5 4 = 0"
  by (simp add: sample16_def block2_def)

lemma window_table_2_0: "window_table 2 ! 0 = 7672 / 100000"
  by (simp add: window_table_def window_at_def)

lemma data_after_first_load:
  "data (fft_load_data cfg2 block2 FFT_CHANNEL_L (fft_init cfg2 (initial_state cfg2))) ! 0
     = Complex (7672 / 100000) 0"
  by (simp add: cfg2_def fft_init_def initial_state_def compute_fft_tables_def Let_def
      upt_2 bitrev_table_2 load_l_def sample16_block2_re sample16_block2_im window_table_2_0)

lemma reachable_after_first_load:
  "reachable cfg2 (fft_load_data cfg2 block2 FFT_CHANNEL_L (fft_init cfg2 (initial_state cfg2)))"
  by (intro reachable.load reachable.first)

text \<open>
  Counterexample to claim C4 as stated: initialise, then load a block whose first left
  sample is 1. In this reachable state the first entry of the time-domain buffer is
  \<open>0.07672\<close> (the sample times \<^verbatim>\<open>window[0]\<close>); a second \<^verbatim>\<open>fft_init\<close> sets it to 0, so the
  call is not a no-op.
\<close>

theorem fft_init_second_call_counterexample:
  "reachable cfg2 (fft_load_data cfg2 block2 FFT_CHANNEL_L (fft_init cfg2 (initial_state cfg2)))
   \<and> fft_init cfg2 (fft_load_data cfg2 block2 FFT_CHANNEL_L (fft_init cfg2 (initial_state cfg2)))
       \<noteq> fft_load_data cfg2 block2 FFT_CHANNEL_L (fft_init cfg2 (initial_state cfg2))"
proof -
  let ?s = "fft_load_data cfg2 block2 FFT_CHANNEL_L (fft_init cfg2 (initial_state cfg2))"
  have "data (fft_init cfg2 ?s) ! 0 = 0"
    by (simp add: fft_init_def Let_def compute_fft_tables_def cfg2_def)
  moreover have "data ?s ! 0 \<noteq> 0"
    by (simp add: data_after_first_load complex_eq_iff del: fft_load_data.simps)
  ultimately have "fft_init cfg2 ?s \<noteq> ?s"
    by metis
  then show ?thesis
    using reachable_after_first_load by simp
qed

theorem fft_init_second_call_witness:
  "reachable cfg2 (fft_load_data cfg2 block2 FFT_CHANNEL_L (fft_init cfg2 (initial_state cfg2)))
   \<and> fft_init cfg2 (fft_load_data cfg2 block2 FFT_CHANNEL_L (fft_init cfg2 (initial_state cfg2)))
       = (fft_load_data cfg2 block2 FFT_CHANNEL_L (fft_init cfg2 (initial_state cfg2)))
           \<lparr>data := replicate 2 0\<rparr>
   \<and> data (fft_init cfg2
         (fft_load_data cfg2 block2 FFT_CHANNEL_L (fft_init cfg2 (initial_state cfg2))))
       = [0, 0]"
proof -
  let ?s = "fft_load_data cfg2 block2 FFT_CHANNEL_L (fft_init cfg2 (initial_state cfg2))"
  have n: "FFT_N cfg2 = 2" by (simp add: cfg2_def)
  have r: "reachable cfg2 ?s" by (rule reachable_after_first_load)
  have "fft_init cfg2 ?s = ?s\<lparr>data := replicate 2 0\<rparr>"
    using fft_init_second_call [OF r] by (simp add: n)
  moreover from this have "data (fft_init cfg2 ?s) = [0, 0]"
    by (simp add: numeral_2_eq_2)
  ultimately show ?thesis using r by simp
qed

section \<open>The band-boundary table\<close>

lemma xscale_table_nth: "i \<le> B \<Longrightarrow> xscale_table N B ! i = xscale_at N B i"
  unfolding xscale_table_def by (metis add_0 less_Suc_eq_le nth_map_upt Suc_eq_plus1 diff_zero)

lemma xscale_at_first: "0 < N \<Longrightarrow> xscale_at N B 0 = 1 / 2"
  by (simp add: xscale_at_def)

lemma xscale_at_last: "0 < N \<Longrightarrow> 0 < B \<Longrightarrow> xscale_at N B B = real N - 1 / 2"
  by (simp add: xscale_at_def)

lemma xscale_at_strict_mono:
  assumes "1 < N" and "0 < B" and "i < j"
  shows "xscale_at N B i < xscale_at N B j"
proof -
  have "real i / real B < real j / real B"
    using assms by (simp add: divide_strict_right_mono)
  moreover have "1 < real N" using assms by simp
  ultimately have "real N powr (real i / real B) < real N powr (real j / real B)"
    by (rule powr_less_mono)
  then show ?thesis by (simp add: xscale_at_def)
qed

lemma xscale_at_bounds:
  assumes "0 < N" and "0 < B" and "i \<le> B"
  shows "1 / 2 \<le> xscale_at N B i \<and> xscale_at N B i \<le> real N - 1 / 2"
proof -
  have n: "1 \<le> real N" using assms by simp
  have "0 \<le> real i / real B" by simp
  with n have lo: "1 \<le> real N powr (real i / real B)"
    by (rule ge_one_powr_ge_zero)
  have "real i / real B \<le> 1" using assms by simp
  with n have "real N powr (real i / real B) \<le> real N powr 1"
    by (intro powr_mono) simp_all
  then have hi: "real N powr (real i / real B) \<le> real N" using assms by simp
  from lo hi show ?thesis by (simp add: xscale_at_def)
qed

text \<open>
  Claim C3, as amended. For \<open>FFT_N > 1\<close> and \<open>BAND_N > 0\<close> the table
  \<open>xscale[b] = FFT_N ^ (b / BAND_N) - 0.5\<close>, \<open>b = 0..BAND_N\<close>, has \<open>BAND_N + 1\<close> entries, is
  strictly increasing, starts at \<open>0.5\<close> (the zeroth power is 1) and ends at
  \<open>FFT_N - 0.5\<close>.
\<close>

theorem xscale_table_increasing:
  assumes "1 < N" and "0 < B" and "i < j" and "j \<le> B"
  shows "length (xscale_table N B) = B + 1
       \<and> xscale_table N B ! 0 = 1 / 2
       \<and> xscale_table N B ! B = real N - 1 / 2
       \<and> xscale_table N B ! i < xscale_table N B ! j"
proof -
  have "xscale_table N B ! i < xscale_table N B ! j"
    using assms by (simp add: xscale_table_nth xscale_at_strict_mono)
  moreover have "xscale_table N B ! 0 = 1 / 2"
    using assms by (simp add: xscale_table_nth xscale_at_first)
  moreover have "xscale_table N B ! B = real N - 1 / 2"
    using assms by (simp add: xscale_table_nth xscale_at_last)
  ultimately show ?thesis by (simp add: xscale_table_def)
qed

lemma upt_3: "[0..<3] = [0, 1, 2]"
  by (simp add: upt_rec)

lemma xscale_table_4_2: "xscale_table 4 2 = [1 / 2, 3 / 2, 7 / 2]"
proof -
  have "(4::real) powr (1 / 2) = 2"
    by (simp add: powr_half_sqrt)
  then show ?thesis
    by (simp add: xscale_table_def xscale_at_def upt_3)
qed

theorem xscale_table_increasing_witness:
  "(1::nat) < 4 \<and> (0::nat) < 2 \<and> (0::nat) < 1 \<and> (1::nat) \<le> 2
     \<and> length (xscale_table 4 2) = 3
     \<and> xscale_table 4 2 ! 0 = 1 / 2
     \<and> xscale_table 4 2 ! 2 = 7 / 2
     \<and> xscale_table 4 2 ! 0 < xscale_table 4 2 ! 1"
  using xscale_table_increasing [of 4 2 0 1] by simp

text \<open>
  Counterexample to claim C3 as stated: for \<open>FFT_N = 4\<close>, \<open>BAND_N = 2\<close> the table is
  \<open>[0.5, 1.5, 3.5]\<close>; its first entry is \<open>0.5\<close>, at distance 1 from the \<open>-0.5\<close> of the
  claim.
\<close>

theorem xscale_table_first_counterexample:
  "xscale_table 4 2 = [1 / 2, 3 / 2, 7 / 2]
     \<and> \<bar>xscale_table 4 2 ! 0 - (- 1 / 2)\<bar> = 1"
  by (simp add: xscale_table_4_2)

section \<open>Reads of the spectrum by \<^verbatim>\<open>compute_freq_band\<close>\<close>

lemma freq_read_in_range:
  "0 \<le> k \<Longrightarrow> k < int (length fq) \<Longrightarrow> freq_read fq k = Some (fq ! nat k)"
  by (simp add: freq_read_def)

lemma band_sum_in_range:
  "0 \<le> a \<Longrightarrow> b \<le> int (length fq) \<Longrightarrow> \<exists>r. band_sum fq a b n = Some r"
proof (induction fq a b n rule: band_sum.induct)
  case (1 fq a b n)
  show ?case
  proof (cases "a < b")
    case True
    with "1.prems" have rd: "freq_read fq a = Some (fq ! nat a)"
      by (simp add: freq_read_in_range)
    from "1.IH" [OF True rd] "1.prems"
    have "\<exists>r. band_sum fq (a + 1) b (n + fq ! nat a) = Some r" by simp
    then show ?thesis
      by (subst band_sum.simps) (simp add: True rd)
  next
    case False
    then show ?thesis by (subst band_sum.simps) simp
  qed
qed

lemma compute_freq_band_in_range:
  assumes len: "length fq = N"
    and lo: "1 / 2 \<le> xs ! band" and hi: "xs ! band \<le> real N - 1 / 2"
    and lo': "1 / 2 \<le> xs ! (band + 1)" and hi': "xs ! (band + 1) \<le> real N - 1 / 2"
  shows "\<exists>v. compute_freq_band N B fq xs band = Some v"
proof -
  define a where "a = \<lceil>xs ! band\<rceil>"
  define b where "b = \<lfloor>xs ! (band + 1)\<rfloor>"
  have a1: "1 \<le> a" using lo unfolding a_def by linarith
  have aN: "a \<le> int N" using hi unfolding a_def by linarith
  have b0: "0 \<le> b" using lo' unfolding b_def by linarith
  have bN: "b < int N" using hi' unfolding b_def by linarith
  have rb: "freq_read fq b = Some (fq ! nat b)"
    using b0 bN len by (simp add: freq_read_in_range)
  show ?thesis
  proof (cases "b < a")
    case True
    show ?thesis
      unfolding compute_freq_band_def Let_def a_def [symmetric] b_def [symmetric]
      using True rb by simp
  next
    case False
    then have "a - 1 < int N" using bN by simp
    with a1 len have ra: "freq_read fq (a - 1) = Some (fq ! nat (a - 1))"
      by (simp add: freq_read_in_range)
    obtain r where r: "band_sum fq a b (0 + fq ! nat (a - 1) * (of_int a - xs ! band)) = Some r"
      using band_sum_in_range [of a b fq] a1 bN len by fastforce
    show ?thesis
      unfolding compute_freq_band_def Let_def a_def [symmetric] b_def [symmetric]
      using False a1 bN ra rb r by simp
  qed
qed

text \<open>
  Claim C10. With the band-boundary table that \<^verbatim>\<open>compute_fft_tables\<close> builds (its entries
  lie between \<open>0.5\<close> and \<open>FFT_N - 0.5\<close>) and a spectrum array of \<open>FFT_N\<close> entries,
  \<^verbatim>\<open>compute_freq_band\<close> reads \<^verbatim>\<open>freq\<close> only at indices \<open>0..FFT_N-1\<close>, for every band
  \<open>0..BAND_N-1\<close> and in both branches: the model, whose result is \<open>None\<close> as soon as one
  read leaves the array, returns a value.
\<close>

theorem compute_freq_band_reads_in_bounds:
  assumes "0 < N" and "0 < B" and "band < B" and "length fq = N"
  shows "(\<exists>v. compute_freq_band N B fq (xscale_table N B) band = Some v)
       \<and> 1 / 2 \<le> xscale_table N B ! band
       \<and> xscale_table N B ! band \<le> xscale_table N B ! (band + 1)
       \<and> xscale_table N B ! (band + 1) \<le> real N - 1 / 2"
proof -
  have b1: "xscale_table N B ! band = xscale_at N B band"
    and b2: "xscale_table N B ! (band + 1) = xscale_at N B (band + 1)"
    using assms by (simp_all add: xscale_table_nth)
  have bd1: "1 / 2 \<le> xscale_at N B band \<and> xscale_at N B band \<le> real N - 1 / 2"
    using assms by (intro xscale_at_bounds) simp_all
  have bd2: "1 / 2 \<le> xscale_at N B (band + 1) \<and> xscale_at N B (band + 1) \<le> real N - 1 / 2"
    using assms by (intro xscale_at_bounds) simp_all
  have mono: "xscale_at N B band \<le> xscale_at N B (band + 1)"
  proof -
    have "real band / real B \<le> real (band + 1) / real B"
      by (simp add: divide_right_mono)
    moreover have "1 \<le> real N" using assms by simp
    ultimately have "real N powr (real band / real B) \<le> real N powr (real (band + 1) / real B)"
      by (intro powr_mono)
    then show ?thesis by (simp add: xscale_at_def)
  qed
  have "\<exists>v. compute_freq_band N B fq (xscale_table N B) band = Some v"
  proof (rule compute_freq_band_in_range)
    show "length fq = N" by (rule assms(4))
    show "1 / 2 \<le> xscale_table N B ! band" using bd1 by (simp only: b1)
    show "xscale_table N B ! band \<le> real N - 1 / 2" using bd1 by (simp only: b1)
    show "1 / 2 \<le> xscale_table N B ! (band + 1)" using bd2 by (simp only: b2)
    show "xscale_table N B ! (band + 1) \<le> real N - 1 / 2" using bd2 by (simp only: b2)
  qed
  then show ?thesis using bd1 bd2 mono by (simp only: b1 b2)
qed

lemma band_sum_2_3: "band_sum [1, 2, 3, 4] 2 3 n = Some (n + 3)"
  by (subst band_sum.simps, simp add: freq_read_def, subst band_sum.simps, simp)

theorem compute_freq_band_reads_in_bounds_witness:
  "(0::nat) < 4 \<and> (0::nat) < 2 \<and> (1::nat) < 2 \<and> length [1, 2, 3, 4 :: real] = 4
     \<and> compute_freq_band 4 2 [1, 2, 3, 4] (xscale_table 4 2) 1
         = Some (fscale 20 (log10f (Fin (1 / 4))))
     \<and> (\<exists>v. compute_freq_band 4 2 [1, 2, 3, 4] (xscale_table 4 2) 1 = Some v)"
proof -
  have c: "\<lceil>3 / 2 :: real\<rceil> = 2" "\<lfloor>7 / 2 :: real\<rfloor> = 3"
    by linarith+
  have "compute_freq_band 4 2 [1, 2, 3, 4] (xscale_table 4 2) 1
      = Some (fscale 20 (log10f (Fin (1 / 4))))"
    by (simp add: compute_freq_band_def xscale_table_4_2 c freq_read_def band_sum_2_3)
  then show ?thesis
    using compute_freq_band_reads_in_bounds [of 4 2 1 "[1, 2, 3, 4]"] by simp
qed

section \<open>The transform and the spectrum\<close>

lemma fft_stages_step:
  "0 < i \<Longrightarrow> fft_stages N rt i half d
     = fft_stages N rt (i div 2) (2 * half) (fft_groups N rt half i 0 d)"
  by (subst fft_stages.simps) (simp add: drop_bit_eq_div mult.commute)

lemma fft_stages_stop: "fft_stages N rt 0 half d = d"
  by (subst fft_stages.simps) simp

lemma fft_groups_step:
  "g < N \<Longrightarrow> 0 < half \<Longrightarrow> fft_groups N rt half i g d
     = fft_groups N rt half i (g + 2 * half) (fft_inner rt half i g 0 0 d)"
  by (subst fft_groups.simps) (simp add: mult.commute)

lemma fft_groups_stop: "\<not> g < N \<Longrightarrow> fft_groups N rt half i g d = d"
  by (subst fft_groups.simps) (simp add: mult.commute)

lemma fft_inner_step:
  "b < half \<Longrightarrow> fft_inner rt half i g b r d
     = fft_inner rt half i g (b + 1) (r + i)
         (d[g + b := d ! (g + b) + d ! (g + b + half) * rt ! r,
            g + b + half := d ! (g + b) - d ! (g + b + half) * rt ! r])"
  by (subst fft_inner.simps) (simp add: Let_def)

lemma fft_inner_stop: "\<not> b < half \<Longrightarrow> fft_inner rt half i g b r d = d"
  by (subst fft_inner.simps) simp

lemmas fft_eval = fft_stages_step fft_stages_stop fft_groups_step fft_groups_stop
  fft_inner_step fft_inner_stop

lemma fft_stages_2:
  "fft_stages 2 [r0] (Suc 0) (Suc 0) [d0, d1] = [d0 + d1 * r0, d0 - d1 * r0]"
  by (simp add: fft_eval)

lemma fft_stages_4:
  "fft_stages 4 [r0, r1] 2 (Suc 0) [d0, d1, d2, d3]
     = [(d0 + d1 * r0) + (d2 + d3 * r0) * r0,
        (d0 - d1 * r0) + (d2 - d3 * r0) * r1,
        (d0 + d1 * r0) - (d2 + d3 * r0) * r0,
        (d0 - d1 * r0) - (d2 - d3 * r0) * r1]"
  by (simp add: fft_eval)


lemma root_table_2: "root_table 2 = [1]"
  by (simp add: root_table_def root_at_def)

subsection \<open>The spectrum is never negative for a scale factor that is not negative\<close>

lemma fge0_not_flt0: "fge0 v \<Longrightarrow> \<not> flt0 v"
  by (cases v) (simp_all add: fge0_def flt0_def)

lemma not_flt0_fmul:
  assumes "\<not> flt0 a" and "\<not> flt0 b" and "\<And>x. 0 \<le> x \<Longrightarrow> fge0 (r x)"
  shows "\<not> flt0 (fmul r a b)"
proof (cases a)
  case (Fin x)
  show ?thesis
  proof (cases b)
    case (Fin y)
    have "0 \<le> x * y" using assms(1,2) \<open>a = Fin x\<close> Fin by (simp add: flt0_def)
    then have "fge0 (r (x * y))" by (rule assms(3))
    then show ?thesis using \<open>a = Fin x\<close> Fin by (simp add: fge0_not_flt0)
  qed (use assms(1,2) \<open>a = Fin x\<close> in \<open>simp_all add: flt0_def\<close>)
next
  case PosInf
  then show ?thesis using assms(2) by (cases b) (simp_all add: flt0_def)
next
  case NegInf
  then show ?thesis using assms(1) by (simp add: flt0_def)
next
  case NaN
  then show ?thesis by (simp add: flt0_def)
qed

lemma not_flt0_fdiv:
  assumes "\<not> flt0 a" and "0 < y" and "\<And>x. 0 \<le> x \<Longrightarrow> fge0 (r x)"
  shows "\<not> flt0 (fdiv r a (Fin y))"
proof (cases a)
  case (Fin x)
  have "0 \<le> x / y" using assms(1,2) Fin by (simp add: flt0_def)
  then have "fge0 (r (x / y))" by (rule assms(3))
  then show ?thesis using Fin assms(2) by (simp add: fge0_not_flt0)
qed (use assms(1,2) in \<open>simp_all add: flt0_def\<close>)

lemma not_flt0_fcast:
  assumes "\<not> flt0 a" and "\<And>x. 0 \<le> x \<Longrightarrow> fge0 (r x)"
  shows "\<not> flt0 (fcast r a)"
proof (cases a)
  case (Fin x)
  have "0 \<le> x" using assms(1) Fin by (simp add: flt0_def)
  then have "fge0 (r x)" by (rule assms(2))
  then show ?thesis using Fin by (simp add: fcast_def fge0_not_flt0)
qed (use assms(1) in \<open>simp_all add: fcast_def flt0_def\<close>)

lemma fge0_fdiv:
  assumes "fge0 a" and "0 < y" and "\<And>x. 0 \<le> x \<Longrightarrow> fge0 (r x)"
  shows "fge0 (fdiv r a (Fin y))"
proof (cases a)
  case (Fin x)
  have "0 \<le> x / y" using assms(1,2) Fin by (simp add: fge0_def)
  then have "fge0 (r (x / y))" by (rule assms(3))
  then show ?thesis using Fin assms(2) by simp
qed (use assms(1,2) in \<open>simp_all add: fge0_def\<close>)

lemma fge0_fcast:
  assumes "fge0 a" and "\<And>x. 0 \<le> x \<Longrightarrow> fge0 (r x)"
  shows "fge0 (fcast r a)"
proof (cases a)
  case (Fin x)
  have "0 \<le> x" using assms(1) Fin by (simp add: fge0_def)
  then have "fge0 (r x)" by (rule assms(2))
  then show ?thesis using Fin by (simp add: fcast_def)
qed (use assms(1) in \<open>simp_all add: fcast_def fge0_def\<close>)

text \<open>Whatever \<^verbatim>\<open>cabsf\<close> returns, short of a negative number, the amplitude is not negative.\<close>

lemma amplitude_not_negative:
  assumes "\<not> flt0 (cabsf z)" and "fge0 scale_factor" and "0 < N"
  shows "\<not> flt0 (amplitude cabsf N scale_factor z)"
proof -
  have half: "\<not> flt0 (Fin 0.5)" by (simp add: flt0_def)
  have "\<not> flt0 (fmul round_double (Fin 0.5) (cabsf z))"
    using half assms(1) by (rule not_flt0_fmul) (rule fge0_round_double)
  then have "\<not> flt0 (fdiv round_double (fmul round_double (Fin 0.5) (cabsf z)) (Fin (real N)))"
    by (rule not_flt0_fdiv) (use assms(3) in simp, rule fge0_round_double)
  then have "\<not> flt0 (fmul round_double
      (fdiv round_double (fmul round_double (Fin 0.5) (cabsf z)) (Fin (real N))) scale_factor)"
    using fge0_not_flt0 [OF assms(2)] by (rule not_flt0_fmul) (rule fge0_round_double)
  then show ?thesis
    unfolding amplitude_def by (rule not_flt0_fcast) (rule fge0_round_float)
qed

text \<open>A number below \<open>2^b\<close> in absolute value, \<open>2^b\<close> within the format, rounds to a finite
  number that is at most \<open>2^b\<close> in absolute value.\<close>

lemma pow2_mono: "a \<le> b \<Longrightarrow> pow2 a \<le> pow2 b"
  by (simp add: pow2_powr)

lemma pow2_strict_mono: "a < b \<Longrightarrow> pow2 a < pow2 b"
  by (simp add: pow2_powr)

lemma round_even_le: "q \<le> of_int M \<Longrightarrow> round_even q \<le> M"
proof -
  assume q: "q \<le> of_int M"
  then have f: "\<lfloor>q\<rfloor> \<le> M" by (simp add: floor_le_iff)
  show ?thesis
  proof (cases "q = of_int \<lfloor>q\<rfloor>")
    case True
    then have "round_even q = \<lfloor>q\<rfloor>" by (metis round_even_int)
    with f show ?thesis by simp
  next
    case False
    then have "of_int \<lfloor>q\<rfloor> < q" using of_int_floor_le [of q] by linarith
    then have "of_int \<lfloor>q\<rfloor> < (of_int M :: real)" using q by linarith
    then have "\<lfloor>q\<rfloor> < M" by simp
    moreover have "round_even q \<le> \<lfloor>q\<rfloor> + 1" by (simp add: round_even_def Let_def)
    ultimately show ?thesis by linarith
  qed
qed

lemma round_even_ge: "of_int M \<le> q \<Longrightarrow> M \<le> round_even q"
proof -
  assume "of_int M \<le> q"
  then have "M \<le> \<lfloor>q\<rfloor>" by (simp add: le_floor_iff)
  moreover have "\<lfloor>q\<rfloor> \<le> round_even q" by (simp add: round_even_def Let_def)
  ultimately show ?thesis by linarith
qed

lemma round_to_finite:
  assumes x: "\<bar>x\<bar> < pow2 b" and lo: "emin < b" and hi: "b \<le> emax"
  shows "\<exists>y. round_to p emin emax x = Fin y \<and> \<bar>y\<bar> \<le> pow2 b"
proof (cases "x = 0")
  case True
  then show ?thesis using pow2_pos [of b] by (simp add: round_to_def)
next
  case False
  define e where "e = max \<lfloor>log 2 \<bar>x\<bar>\<rfloor> emin"
  define u where "u = pow2 (e - (int p - 1))"
  define M :: int where "M = 2 ^ nat (b - e + (int p - 1))"
  have u: "0 < u" by (simp add: u_def pow2_pos)
  have ax: "0 < \<bar>x\<bar>" using False by simp
  have "log 2 \<bar>x\<bar> < real_of_int b"
    using x ax by (simp add: pow2_powr log_less_iff)
  then have "\<lfloor>log 2 \<bar>x\<bar>\<rfloor> \<le> b - 1" by linarith
  then have e: "e \<le> b - 1" using lo by (simp add: e_def)
  then have k0: "0 \<le> b - e + (int p - 1)" by simp
  have "b = (b - e + (int p - 1)) + (e - (int p - 1))" by simp
  then have "pow2 b = pow2 (b - e + (int p - 1)) * u"
    unfolding u_def pow2_add [symmetric] by (rule arg_cong)
  also have "pow2 (b - e + (int p - 1)) = of_int M"
    unfolding M_def using k0 by (rule pow2_nonneg_int)
  finally have Mu: "pow2 b = of_int M * u" .
  have xu: "\<bar>x\<bar> / u < of_int M"
    using x u by (simp add: Mu pos_divide_less_eq)
  have lt: "\<bar>x / u\<bar> < of_int M"
    unfolding abs_divide abs_of_pos [OF u] by (rule xu)
  have "x / u \<le> of_int M" using lt by linarith
  then have up: "round_even (x / u) \<le> M" by (rule round_even_le)
  have "- real_of_int M \<le> x / u" using lt by linarith
  then have "of_int (- M) \<le> x / u" by simp
  then have "- M \<le> round_even (x / u)" by (rule round_even_ge)
  with up have "\<bar>round_even (x / u)\<bar> \<le> M" by simp
  then have "real_of_int \<bar>round_even (x / u)\<bar> \<le> real_of_int M" by linarith
  then have "\<bar>real_of_int (round_even (x / u))\<bar> * u \<le> real_of_int M * u"
    using u by simp
  then have y: "\<bar>real_of_int (round_even (x / u)) * u\<bar> \<le> pow2 b"
    using u by (simp add: Mu abs_mult)
  have "pow2 b < pow2 (emax + 1)" using hi by (intro pow2_strict_mono) simp
  with y have fin: "\<not> pow2 (emax + 1) \<le> \<bar>real_of_int (round_even (x / u)) * u\<bar>" by linarith
  have ue: "u = pow2 (max \<lfloor>log 2 \<bar>x\<bar>\<rfloor> emin - (int p - 1))"
    by (simp add: u_def e_def)
  show ?thesis
    unfolding round_to_unfold [OF False ue] using fin y by simp
qed

lemma round_double_finite:
  assumes "0 \<le> x" and "x < pow2 b" and "- 1022 < b" and "b \<le> 1023"
  shows "\<exists>y. round_double x = Fin y \<and> 0 \<le> y \<and> y \<le> pow2 b"
proof -
  have "\<bar>x\<bar> < pow2 b" using assms(1,2) by simp
  then obtain y where y: "round_to 53 (- 1022) 1023 x = Fin y" "\<bar>y\<bar> \<le> pow2 b"
    using round_to_finite [of x b "- 1022" 1023 53] assms(3,4) by blast
  have "fge0 (round_to 53 (- 1022) 1023 x)" using assms(1) by (rule round_to_nonneg)
  then have "0 \<le> y" by (simp add: y(1) fge0_def)
  with y show ?thesis by (simp add: round_double_def)
qed

text \<open>With a finite magnitude and a finite scale factor that is not negative, the
  \<^verbatim>\<open>double\<close> operations stay finite, and the amplitude is a number that is not negative or,
  when the conversion to \<^verbatim>\<open>float\<close> overflows, \<open>+\<infinity>\<close>.\<close>

lemma amplitude_nonneg:
  assumes c: "cabsf z = Fin m" "0 \<le> m" "m < pow2 128"
    and s: "scale_factor = Fin y" "0 \<le> y" "y < pow2 128" and N: "0 < N"
  shows "fge0 (amplitude cabsf N scale_factor z)"
proof -
  have "m / 2 < pow2 127"
  proof -
    have "pow2 128 = pow2 127 * 2" by (simp add: pow2_def)
    then show ?thesis using c(3) by simp
  qed
  then obtain t1 where t1: "round_double (m / 2) = Fin t1" "0 \<le> t1" "t1 \<le> pow2 127"
    using round_double_finite [of "m / 2" 127] c(2) by auto
  have h: "fmul round_double (Fin 0.5) (cabsf z) = Fin t1"
    by (simp add: c(1) t1(1))
  have "t1 / real N \<le> t1"
    using N t1(2) by (simp add: divide_le_eq mult_le_cancel_left1)
  also have "t1 < pow2 128"
    using t1(3) pow2_strict_mono [of 127 128] by simp
  finally have "t1 / real N < pow2 128" .
  moreover have "0 \<le> t1 / real N" using t1(2) by simp
  ultimately obtain t2 where t2: "round_double (t1 / real N) = Fin t2" "0 \<le> t2" "t2 \<le> pow2 128"
    using round_double_finite [of "t1 / real N" 128] by auto
  have "t2 * y \<le> pow2 128 * y" using t2(3) s(2) by (rule mult_right_mono)
  also have "\<dots> < pow2 128 * pow2 128" using s(3) pow2_pos [of 128] by simp
  also have "\<dots> = pow2 256" unfolding pow2_add [symmetric] by simp
  finally have "t2 * y < pow2 256" .
  moreover have "0 \<le> t2 * y" using t2(2) s(2) by simp
  ultimately obtain t3 where t3: "round_double (t2 * y) = Fin t3" "0 \<le> t3"
    using round_double_finite [of "t2 * y" 256] by auto
  have "amplitude cabsf N scale_factor z = round_float t3"
    unfolding amplitude_def h s(1) using N by (simp add: t2(1) t3(1) fcast_def)
  then show ?thesis using t3(2) by (simp add: fge0_round_float)
qed

text \<open>The loop writes entries \<open>2 i\<close> and \<open>2 i + 1\<close> in its iteration \<open>i\<close>, and no other.\<close>

lemma length_amp_step_ieee: "length (amp_step_ieee cabsf N sf d i fq) = length fq"
  by (simp add: amp_step_ieee_def Let_def)

lemma length_amp_fold_ieee: "length (fold (amp_step_ieee cabsf N sf d) xs fq) = length fq"
  by (induction xs arbitrary: fq) (simp_all add: length_amp_step_ieee)

lemma amp_step_ieee_nth:
  assumes "j < length fq"
  shows "amp_step_ieee cabsf N sf d i fq ! j =
     (if j = i * 2 + 1 then amplitude cabsf N sf (csubf (d ! i) (conjf (d ! (N - 1 - i))))
      else if j = i * 2 then amplitude cabsf N sf (caddf (d ! i) (conjf (d ! (N - 1 - i))))
      else fq ! j)"
  using assms by (simp add: amp_step_ieee_def Let_def nth_list_update)

lemma amp_fold_ieee:
  assumes add: "\<And>i. i < K \<Longrightarrow> P (amplitude cabsf N sf (caddf (d ! i) (conjf (d ! (N - 1 - i)))))"
    and sub: "\<And>i. i < K \<Longrightarrow> P (amplitude cabsf N sf (csubf (d ! i) (conjf (d ! (N - 1 - i)))))"
    and "k \<le> K" and "j < 2 * k" and "j < length fq"
  shows "P (fold (amp_step_ieee cabsf N sf d) [0..<k] fq ! j)"
  using assms(3,4)
proof (induction k)
  case 0
  then show ?case by simp
next
  case (Suc k)
  let ?f = "fold (amp_step_ieee cabsf N sf d) [0..<k] fq"
  have len: "j < length ?f" using assms(5) by (simp add: length_amp_fold_ieee)
  have unfold: "fold (amp_step_ieee cabsf N sf d) [0..<Suc k] fq = amp_step_ieee cabsf N sf d k ?f"
    by simp
  have k: "k < K" using Suc.prems(1) by simp
  show ?case
  proof (cases "j < 2 * k")
    case True
    then have "P (?f ! j)" using Suc.prems(1) by (intro Suc.IH) simp_all
    moreover from True have "j \<noteq> k * 2 + 1" "j \<noteq> k * 2" by simp_all
    ultimately show ?thesis
      by (simp only: unfold amp_step_ieee_nth [OF len] if_False)
  next
    case False
    with Suc.prems(2) have "j = k * 2 \<or> j = k * 2 + 1" by arith
    then show ?thesis
    proof
      assume j: "j = k * 2"
      show ?thesis
        unfolding unfold amp_step_ieee_nth [OF len] using add [OF k] j by simp
    next
      assume j: "j = k * 2 + 1"
      show ?thesis
        unfolding unfold amp_step_ieee_nth [OF len] using sub [OF k] j by simp
    qed
  qed
qed

lemma fft_execute_amplitudes_all:
  assumes add: "\<And>j. j < N div 2 \<Longrightarrow> P (amplitude cabsf N sf (caddf (d ! j) (conjf (d ! (N - 1 - j)))))"
    and sub: "\<And>j. j < N div 2 \<Longrightarrow> P (amplitude cabsf N sf (csubf (d ! j) (conjf (d ! (N - 1 - j)))))"
    and half: "\<And>v. P v \<Longrightarrow> P (fcast round_float (fdiv round_double v (Fin 2)))"
    and "even N" and "length fq = N" and "i < N"
  shows "P (fft_execute_amplitudes cabsf N sf d fq ! i)"
proof -
  define f1 where "f1 = fold (amp_step_ieee cabsf N sf d) [0..<N div 2] fq"
  have fr: "fft_execute_amplitudes cabsf N sf d fq
      = f1[0 := fcast round_float (fdiv round_double (f1 ! 0) (Fin 2))]"
    by (simp add: fft_execute_amplitudes_def Let_def f1_def)
  have cover: "2 * (N div 2) = N" using assms(4) by simp
  have all: "P (f1 ! j)" if "j < N" for j
    unfolding f1_def
    by (rule amp_fold_ieee [where K = "N div 2"])
      (use that assms(5) add sub in \<open>simp_all add: cover\<close>)
  have len: "length f1 = N" by (simp add: f1_def length_amp_fold_ieee assms(5))
  show ?thesis
  proof (cases "i = 0")
    case True
    have "P (fcast round_float (fdiv round_double (f1 ! 0) (Fin 2)))"
      using assms(6) True by (intro half all) simp
    then show ?thesis using True assms(6) len by (simp add: fr)
  next
    case False
    then show ?thesis using all [OF assms(6)] by (simp add: fr)
  qed
qed

text \<open>
  Claim C7, as amended. Let \<open>FFT_N\<close> be a power of two and at least 2, the complex buffer
  and the spectrum array have \<open>FFT_N\<close> entries, and \<^verbatim>\<open>cabsf\<close> never return a negative
  number. For every contents of the buffer, infinities and NaN included, and every
  \<^verbatim>\<open>scale_factor\<close> with \<^verbatim>\<open>scale_factor >= 0\<close> (a finite number that is not negative, or
  \<open>+\<infinity>\<close>), no entry of the spectrum array is negative after the amplitude loop of
  \<^verbatim>\<open>fft_execute\<close>: each is a number that is not negative, \<open>+\<infinity>\<close> or a NaN. When moreover
  \<^verbatim>\<open>scale_factor\<close> and the magnitudes that \<^verbatim>\<open>cabsf\<close> returns in the loop are finite \<^verbatim>\<open>float\<close>
  values, no entry is a NaN: every entry \<open>v\<close> satisfies \<^verbatim>\<open>v >= 0\<close>.
\<close>

theorem fft_execute_freq_not_negative:
  assumes "\<forall>z. \<not> flt0 (cabsf z)" and "fge0 scale_factor"
    and "N = 2 ^ k" and "0 < k" and "length d = N" and "length fq = N" and "i < N"
  shows "\<not> flt0 (fft_execute_amplitudes cabsf N scale_factor d fq ! i)
       \<and> (ffinite scale_factor
            \<and> (\<forall>j<N div 2. ffinite (cabsf (caddf (d ! j) (conjf (d ! (N - 1 - j)))))
                          \<and> ffinite (cabsf (csubf (d ! j) (conjf (d ! (N - 1 - j))))))
          \<longrightarrow> fge0 (fft_execute_amplitudes cabsf N scale_factor d fq ! i))"
proof (intro conjI impI)
  have ev: "even N" and pos: "0 < N" using assms(3,4) by simp_all
  show "\<not> flt0 (fft_execute_amplitudes cabsf N scale_factor d fq ! i)"
  proof (rule fft_execute_amplitudes_all [where P = "\<lambda>v. \<not> flt0 v"])
    show "\<not> flt0 (amplitude cabsf N scale_factor (caddf (d ! j) (conjf (d ! (N - 1 - j)))))"
      for j
      by (intro amplitude_not_negative assms(1) [rule_format] assms(2) pos)
    show "\<not> flt0 (amplitude cabsf N scale_factor (csubf (d ! j) (conjf (d ! (N - 1 - j)))))"
      for j
      by (intro amplitude_not_negative assms(1) [rule_format] assms(2) pos)
    show "\<not> flt0 (fcast round_float (fdiv round_double v (Fin 2)))" if "\<not> flt0 v" for v
      by (intro not_flt0_fcast not_flt0_fdiv that fge0_round_float fge0_round_double) simp
  qed (fact ev assms(6,7))+
  assume fin: "ffinite scale_factor
      \<and> (\<forall>j<N div 2. ffinite (cabsf (caddf (d ! j) (conjf (d ! (N - 1 - j)))))
                    \<and> ffinite (cabsf (csubf (d ! j) (conjf (d ! (N - 1 - j))))))"
  then obtain y where sf: "scale_factor = Fin y" and ay: "\<bar>y\<bar> < pow2 128"
    by (cases scale_factor) (simp_all add: ffinite_def)
  have y0: "0 \<le> y" using assms(2) sf by (simp add: fge0_def)
  have y: "scale_factor = Fin y" "y < pow2 128" using sf ay by simp_all
  have amp: "fge0 (amplitude cabsf N scale_factor z)" if "ffinite (cabsf z)" for z
  proof -
    from that obtain m where cz: "cabsf z = Fin m" and am: "\<bar>m\<bar> < pow2 128"
      by (cases "cabsf z") (simp_all add: ffinite_def)
    have "\<not> flt0 (Fin m)" using assms(1) [rule_format, of z] unfolding cz .
    then have m0: "0 \<le> m" by (simp add: flt0_def)
    have "m < pow2 128" using am by simp
    with cz m0 show ?thesis using y y0 pos by (intro amplitude_nonneg)
  qed
  show "fge0 (fft_execute_amplitudes cabsf N scale_factor d fq ! i)"
  proof (rule fft_execute_amplitudes_all [where P = fge0])
    show "fge0 (amplitude cabsf N scale_factor (caddf (d ! j) (conjf (d ! (N - 1 - j)))))"
      if "j < N div 2" for j
      using fin that by (intro amp) simp
    show "fge0 (amplitude cabsf N scale_factor (csubf (d ! j) (conjf (d ! (N - 1 - j)))))"
      if "j < N div 2" for j
      using fin that by (intro amp) simp
    show "fge0 (fcast round_float (fdiv round_double v (Fin 2)))" if "fge0 v" for v
      by (intro fge0_fcast fge0_fdiv that fge0_round_float fge0_round_double) simp
  qed (fact ev assms(6,7))+
qed

lemma cabsf_nearest_not_negative: "\<not> flt0 (cabsf_nearest z)"
proof (cases z)
  case (Pair a b)
  show ?thesis
  proof (cases a)
    case (Fin x)
    show ?thesis
    proof (cases b)
      case (Fin y)
      have "fge0 (round_float (sqrt (x * x + y * y)))"
        by (intro fge0_round_float) simp
      then show ?thesis using Pair \<open>a = Fin x\<close> Fin by (simp add: fge0_not_flt0)
    qed (use Pair \<open>a = Fin x\<close> in \<open>simp_all add: flt0_def\<close>)
  next
    case NaN
    then show ?thesis using Pair by (cases b) (simp_all add: flt0_def)
  qed (use Pair in \<open>simp_all add: flt0_def\<close>)
qed

lemma round_half:
  "round_double (1 / 2) = Fin (1 / 2)" "round_double (- (1 / 2)) = Fin (- (1 / 2))"
  "round_float (1 / 2) = Fin (1 / 2)" "round_float (- (1 / 2)) = Fin (- (1 / 2))"
  "round_double (1 / 4) = Fin (1 / 4)" "round_double (- (1 / 4)) = Fin (- (1 / 4))"
  "round_float (1 / 4) = Fin (1 / 4)" "round_float (- (1 / 4)) = Fin (- (1 / 4))"
proof -
  show "round_double (1 / 2) = Fin (1 / 2)"
    by (rule round_double_dyadic [where m = 1 and k = "- 1"]) (simp_all add: pow2_def)
  show "round_double (- (1 / 2)) = Fin (- (1 / 2))"
    by (rule round_double_dyadic [where m = "- 1" and k = "- 1"]) (simp_all add: pow2_def)
  show "round_float (1 / 2) = Fin (1 / 2)"
    by (rule round_float_dyadic [where m = 1 and k = "- 1"]) (simp_all add: pow2_def)
  show "round_float (- (1 / 2)) = Fin (- (1 / 2))"
    by (rule round_float_dyadic [where m = "- 1" and k = "- 1"]) (simp_all add: pow2_def)
  show "round_double (1 / 4) = Fin (1 / 4)"
    by (rule round_double_dyadic [where m = 1 and k = "- 2"]) (simp_all add: pow2_def)
  show "round_double (- (1 / 4)) = Fin (- (1 / 4))"
    by (rule round_double_dyadic [where m = "- 1" and k = "- 2"]) (simp_all add: pow2_def)
  show "round_float (1 / 4) = Fin (1 / 4)"
    by (rule round_float_dyadic [where m = 1 and k = "- 2"]) (simp_all add: pow2_def)
  show "round_float (- (1 / 4)) = Fin (- (1 / 4))"
    by (rule round_float_dyadic [where m = "- 1" and k = "- 2"]) (simp_all add: pow2_def)
qed

text \<open>The loop at \<open>FFT_N = 2\<close> on the buffer \<open>[1, 1]\<close>, which the butterfly network leaves when
  the first sample times its window weight is 1 and the second is 0.\<close>

lemma amplitudes_2:
  assumes "sf = 1 \<or> sf = - 1"
  shows "fft_execute_amplitudes cabsf_nearest 2 (Fin sf) [(Fin 1, Fin 0), (Fin 1, Fin 0)]
     [Fin 0, Fin 0] = [Fin (sf / 4), Fin 0]"
proof -
  have u: "[0..<Suc 0] = [0]" by simp
  from assms show ?thesis
    by (auto simp add: fft_execute_amplitudes_def amp_step_ieee_def amplitude_def caddf_def
        csubf_def conjf_def fneg_def fcast_def Let_def u round_half round_float_0 round_double_0
        round_float_1 round_double_1 round_float_numeral)
qed

lemma amplitudes_2_inf:
  "fft_execute_amplitudes cabsf_nearest 2 PosInf [(Fin 0, Fin 0), (Fin 0, Fin 0)]
     [Fin 0, Fin 0] = [NaN, NaN]"
  by (simp add: fft_execute_amplitudes_def amp_step_ieee_def amplitude_def caddf_def
      csubf_def conjf_def fneg_def fcast_def Let_def round_float_0 round_double_0)

text \<open>
  Counterexample to claim C7 as stated, at \<open>FFT_N = 2\<close>. With the buffer \<open>[1, 1]\<close> and
  \<^verbatim>\<open>scale_factor = -1\<close> the first spectrum entry is \<open>-0.25\<close>: the code multiplies the magnitudes
  by the scale factor, whatever its sign. With a buffer of zeros and
  \<^verbatim>\<open>scale_factor = INFINITY\<close> both entries are \<open>0 * \<infinity>\<close>, a NaN, for which \<^verbatim>\<open>v >= 0\<close> is false.
\<close>

theorem fft_execute_freq_counterexample:
  "fft_execute_amplitudes cabsf_nearest 2 (Fin (- 1)) [(Fin 1, Fin 0), (Fin 1, Fin 0)]
     [Fin 0, Fin 0] = [Fin (- 1 / 4), Fin 0]
   \<and> flt0 (Fin (- 1 / 4))
   \<and> fft_execute_amplitudes cabsf_nearest 2 PosInf [(Fin 0, Fin 0), (Fin 0, Fin 0)]
     [Fin 0, Fin 0] = [NaN, NaN]
   \<and> fge0 PosInf \<and> \<not> fge0 NaN"
  using amplitudes_2 [of "- 1"] amplitudes_2_inf by (simp add: flt0_def fge0_def)

theorem fft_execute_freq_not_negative_witness:
  "(\<forall>z. \<not> flt0 (cabsf_nearest z)) \<and> fge0 (Fin 1) \<and> (2 :: nat) = 2 ^ 1 \<and> (0 :: nat) < 1
   \<and> length [(Fin 1, Fin 0), (Fin 1, Fin 0)] = (2 :: nat) \<and> length [Fin 0, Fin 0] = (2 :: nat)
   \<and> (0 :: nat) < 2
   \<and> ffinite (Fin 1)
   \<and> ffinite (cabsf_nearest (caddf (Fin 1, Fin 0) (conjf (Fin 1, Fin 0))))
   \<and> ffinite (cabsf_nearest (csubf (Fin 1, Fin 0) (conjf (Fin 1, Fin 0))))
   \<and> fft_execute_amplitudes cabsf_nearest 2 (Fin 1) [(Fin 1, Fin 0), (Fin 1, Fin 0)]
       [Fin 0, Fin 0] = [Fin (1 / 4), Fin 0]
   \<and> \<not> flt0 (fft_execute_amplitudes cabsf_nearest 2 (Fin 1) [(Fin 1, Fin 0), (Fin 1, Fin 0)]
       [Fin 0, Fin 0] ! 0)
   \<and> fge0 (fft_execute_amplitudes cabsf_nearest 2 (Fin 1) [(Fin 1, Fin 0), (Fin 1, Fin 0)]
       [Fin 0, Fin 0] ! 0)"
proof -
  let ?d = "[(Fin 1, Fin 0), (Fin 1, Fin 0)]"
  have h1: "\<forall>z. \<not> flt0 (cabsf_nearest z)" by (simp add: cabsf_nearest_not_negative)
  have h2: "fge0 (Fin 1)" by (simp add: fge0_def)
  have h3: "(2 :: nat) = 2 ^ 1" "(0 :: nat) < 1" "length ?d = (2 :: nat)"
    "length [Fin 0, Fin 0] = (2 :: nat)" "(0 :: nat) < 2"
    by simp_all
  have f1: "ffinite (Fin 1)" by (simp add: ffinite_def pow2_def)
  have f2: "ffinite (cabsf_nearest (caddf (Fin 1, Fin 0) (conjf (Fin 1, Fin 0))))"
    by (simp add: caddf_def conjf_def fneg_def round_float_numeral round_float_0 ffinite_def pow2_def)
  have f3: "ffinite (cabsf_nearest (csubf (Fin 1, Fin 0) (conjf (Fin 1, Fin 0))))"
    by (simp add: csubf_def conjf_def fneg_def round_float_0 ffinite_def pow2_def)
  have v: "fft_execute_amplitudes cabsf_nearest 2 (Fin 1) ?d [Fin 0, Fin 0] = [Fin (1 / 4), Fin 0]"
    using amplitudes_2 [of 1] by simp
  have fin: "ffinite (Fin 1)
      \<and> (\<forall>j<2 div 2. ffinite (cabsf_nearest (caddf (?d ! j) (conjf (?d ! (2 - 1 - j)))))
                    \<and> ffinite (cabsf_nearest (csubf (?d ! j) (conjf (?d ! (2 - 1 - j))))))"
    using f1 f2 f3 by simp
  from fft_execute_freq_not_negative [OF h1 h2 h3] fin
  have "\<not> flt0 (fft_execute_amplitudes cabsf_nearest 2 (Fin 1) ?d [Fin 0, Fin 0] ! 0)"
    and "fge0 (fft_execute_amplitudes cabsf_nearest 2 (Fin 1) ?d [Fin 0, Fin 0] ! 0)"
    by blast+
  with h1 h2 h3 f1 f2 f3 v show ?thesis by (intro conjI)
qed


subsection \<open>The butterfly network against the direct transform, at \<open>FFT_N = 4\<close>\<close>

lemma upt_4: "[0..<4] = [0, 1, 2, 3]"
  by (simp add: upt_rec)

lemma bitrev_table_4: "bitrev_table 4 = [0, 2, 1, 3]"
  by code_simp

lemma root_table_4: "root_table 4 = [1, cis (- (2 * pi / 3))]"
proof -
  have "[0..<2] = [0, Suc 0]" by (simp add: upt_rec)
  then show ?thesis by (simp add: root_table_def root_at_def TWO_PI_def)
qed

lemma permuted_impulse: "bitrev_permute (bitrev_table 4) [0, 1, 0, 0] = [0, 0, 1, 0]"
proof -
  have r: "replicate 4 x = [x, x, x, x]" for x :: 'a by (simp add: eval_nat_numeral)
  show ?thesis by (simp add: bitrev_permute_def bitrev_table_4 upt_4 r)
qed

lemma dft_impulse: "dft [0, 1, 0, 0] 1 = - \<i>"
proof -
  have "{..<4::nat} = {0, 1, 2, 3}" by auto
  then have "dft [0, 1, 0, 0] 1 = cis (- (pi / 2))"
    by (simp add: dft_def)
  then show ?thesis by (simp add: cis_minus_pi_half)
qed

lemma transformed_impulse:
  "data (fft_execute cfg4 sf
     ((fft_init cfg4 (initial_state cfg4))\<lparr>data := bitrev_permute (bitrev_table 4) [0, 1, 0, 0]\<rparr>))
     = [1, cis (- (2 * pi / 3)), - 1, - cis (- (2 * pi / 3))]"
  unfolding permuted_impulse
  by (simp add: fft_execute_def Let_def cfg4_def fft_init_def initial_state_def
      compute_fft_tables_def root_table_4 drop_bit_eq_div fft_stages_4)

lemma fft_stages_2_is_dft:
  "fft_stages 2 (root_table 2) (drop_bit 1 2) 1 (bitrev_permute (bitrev_table 2) [x0, x1])
     = [dft [x0, x1] 0, dft [x0, x1] 1]"
proof -
  have u: "[0..<2] = [0, Suc 0]" by (simp add: upt_rec)
  have b: "bitrev_table 2 = [0, Suc 0]" by code_simp
  have r: "replicate 2 x = [x, x]" for x :: 'a by (simp add: numeral_2_eq_2)
  have p: "bitrev_permute (bitrev_table 2) [x0, x1] = [x0, x1]"
    by (simp add: bitrev_permute_def b u r)
  have l: "{..<2::nat} = {0, 1}" by auto
  have c: "cis (- pi) = - 1" by (simp add: complex_eq_iff)
  show ?thesis
    by (simp add: p root_table_2 drop_bit_eq_div fft_stages_2 dft_def l c)
qed

text \<open>
  Claim C1 at \<open>FFT_N = 4\<close>, on the unit impulse at index 1. \<^verbatim>\<open>compute_fft_tables\<close> divides
  by \<open>FFT_N - 1\<close>, so the table is \<open>[1, exp(-2\<pi>j/3)]\<close> where the radix-2 network needs
  \<open>[1, exp(-2\<pi>j/4)] = [1, -j]\<close>. On the bit-reversed impulse \<open>[0, 0, 1, 0]\<close> the network
  leaves \<open>exp(-2\<pi>j/3)\<close> in bin 1; the direct transform of \<open>[0, 1, 0, 0]\<close> has \<open>-j\<close>
  there. The two differ by at least \<open>0.5\<close> in exact arithmetic, against values of
  magnitude 1. Run with the table \<open>[1, -j]\<close>, the same network gives the value of the
  direct transform (last conjunct).
\<close>

theorem fft_execute_differs_from_dft:
  "data (fft_execute cfg4 1
     ((fft_init cfg4 (initial_state cfg4))\<lparr>data := bitrev_permute (bitrev_table 4) [0, 1, 0, 0]\<rparr>))
     ! 1 = cis (- (2 * pi / 3))
   \<and> dft [0, 1, 0, 0] 1 = - \<i>
   \<and> 1 / 2 \<le> cmod (data (fft_execute cfg4 1
         ((fft_init cfg4 (initial_state cfg4))\<lparr>data := bitrev_permute (bitrev_table 4) [0, 1, 0, 0]\<rparr>))
         ! 1 - dft [0, 1, 0, 0] 1)
   \<and> fft_stages 4 [1, - \<i>] (drop_bit 1 4) 1 (bitrev_permute (bitrev_table 4) [0, 1, 0, 0]) ! 1
       = dft [0, 1, 0, 0] 1"
proof -
  have re: "Re (cis (- (2 * pi / 3)) - (- \<i>)) = - 1 / 2"
    by (simp add: cos_120)
  have "\<bar>Re (cis (- (2 * pi / 3)) - (- \<i>))\<bar> \<le> cmod (cis (- (2 * pi / 3)) - (- \<i>))"
    by (rule abs_Re_le_cmod)
  with re have far: "1 / 2 \<le> cmod (cis (- (2 * pi / 3)) - (- \<i>))"
    by linarith
  have good: "fft_stages 4 [1, - \<i>] (drop_bit 1 4) 1
      (bitrev_permute (bitrev_table 4) [0, 1, 0, 0]) ! 1 = - \<i>"
    by (simp add: permuted_impulse drop_bit_eq_div fft_stages_4)
  from far good show ?thesis
    by (simp only: transformed_impulse dft_impulse) simp
qed

section \<open>The output shapers\<close>

lemma clamp_u16_range:
  "min_val \<le> max_val \<Longrightarrow> min_val \<le> clamp_u16 max_val min_val d \<and> clamp_u16 max_val min_val d \<le> max_val"
  by (auto simp: clamp_u16_def)

text \<open>A loop that rewrites entry \<open>i\<close> of a buffer from that entry alone, for \<open>i = 0..k-1\<close>.\<close>

lemma fold_indexed_update:
  assumes step: "\<And>i out. step i out = out[i := g i (out ! i)]"
  shows "length (fold step [0..<k] out) = length out
       \<and> (\<forall>j < length out. fold step [0..<k] out ! j = (if j < k then g j (out ! j) else out ! j))"
proof (induction k)
  case 0
  show ?case by simp
next
  case (Suc k)
  let ?o = "fold step [0..<k] out"
  have unfold: "fold step [0..<Suc k] out = ?o[k := g k (?o ! k)]"
    by (simp add: step)
  show ?case
  proof (intro conjI allI impI)
    show "length (fold step [0..<Suc k] out) = length out"
      using Suc.IH by (simp add: unfold del: upt_Suc)
    fix j assume j: "j < length out"
    from Suc.IH have len: "length ?o = length out"
      and old: "?o ! j = (if j < k then g j (out ! j) else out ! j)"
      using j by simp_all
    show "fold step [0..<Suc k] out ! j = (if j < Suc k then g j (out ! j) else out ! j)"
    proof (cases "j = k")
      case True
      have ok: "?o ! k = out ! k" using old True by simp
      have "k < length ?o" using j len True by simp
      then show ?thesis
        unfolding unfold using True by (simp add: ok)
    next
      case False
      then have "?o[k := g k (?o ! k)] ! j = ?o ! j" by simp
      then show ?thesis
        unfolding unfold using old False by auto
    qed
  qed
qed

lemma fft_compute_lin_nth:
  assumes "i < FFT_OUT_N cfg" and "i < length data_out"
  shows "fft_compute_lin ub cfg s data_out max_val min_val ! i =
     clamp_u16 max_val min_val
       (to_u16 ub (fdiv round_double (Fin (real (unat (to_u16 ub
          (fadd round_double (Fin (real (unat (data_out ! i))))
             (fmul round_double (compute_freq_lin (freq s) (FFT_N cfg div FFT_OUT_N cfg) i)
                (fdiv round_double (Fin (real (unat max_val))) (Fin 40)))))))) (Fin 2)))"
  using assms
    fold_indexed_update [where step = "lin_step ub (freq s) (FFT_N cfg div FFT_OUT_N cfg) max_val min_val"
      and k = "FFT_OUT_N cfg" and out = data_out
      and g = "\<lambda>i d. clamp_u16 max_val min_val
       (to_u16 ub (fdiv round_double (Fin (real (unat (to_u16 ub
          (fadd round_double (Fin (real (unat d)))
             (fmul round_double (compute_freq_lin (freq s) (FFT_N cfg div FFT_OUT_N cfg) i)
                (fdiv round_double (Fin (real (unat max_val))) (Fin 40)))))))) (Fin 2)))"]
  by (simp add: fft_compute_lin_def lin_step_def Let_def)

lemma fft_compute_log_nth:
  assumes "i < FFT_OUT_N cfg" and "i < length data_out"
  shows "fft_compute_log ub cfg s data_out max_val min_val ! i =
     clamp_u16 max_val min_val
       (to_u16 ub (Fin (real (unat (to_u16 ub (fshift (real (unat (data_out ! i)))
          (fscale (real (unat max_val) / 40)
             (fscale 20 (log10f (fshift 1
                (compute_freq_lin (freq s) (FFT_N cfg div FFT_OUT_N cfg) i)))))))) / 2)))"
  using assms
    fold_indexed_update [where step = "log_step ub (freq s) (FFT_N cfg div FFT_OUT_N cfg) max_val min_val"
      and k = "FFT_OUT_N cfg" and out = data_out
      and g = "\<lambda>i d. clamp_u16 max_val min_val
       (to_u16 ub (Fin (real (unat (to_u16 ub (fshift (real (unat d))
          (fscale (real (unat max_val) / 40)
             (fscale 20 (log10f (fshift 1
                (compute_freq_lin (freq s) (FFT_N cfg div FFT_OUT_N cfg) i)))))))) / 2)))"]
  by (simp add: fft_compute_log_def log_step_def Let_def)

lemma length_fft_compute_lin:
  "length (fft_compute_lin ub cfg s data_out max_val min_val) = length data_out"
  using fold_indexed_update [where step = "lin_step ub (freq s) (FFT_N cfg div FFT_OUT_N cfg) max_val min_val"
      and k = "FFT_OUT_N cfg" and out = data_out
      and g = "\<lambda>i d. clamp_u16 max_val min_val
       (to_u16 ub (fdiv round_double (Fin (real (unat (to_u16 ub
          (fadd round_double (Fin (real (unat d)))
             (fmul round_double (compute_freq_lin (freq s) (FFT_N cfg div FFT_OUT_N cfg) i)
                (fdiv round_double (Fin (real (unat max_val))) (Fin 40)))))))) (Fin 2)))"]
  by (simp add: fft_compute_lin_def lin_step_def Let_def)

lemma length_fft_compute_log:
  "length (fft_compute_log ub cfg s data_out max_val min_val) = length data_out"
  using fold_indexed_update [where step = "log_step ub (freq s) (FFT_N cfg div FFT_OUT_N cfg) max_val min_val"
      and k = "FFT_OUT_N cfg" and out = data_out
      and g = "\<lambda>i d. clamp_u16 max_val min_val
       (to_u16 ub (Fin (real (unat (to_u16 ub (fshift (real (unat d))
          (fscale (real (unat max_val) / 40)
             (fscale 20 (log10f (fshift 1
                (compute_freq_lin (freq s) (FFT_N cfg div FFT_OUT_N cfg) i)))))))) / 2)))"]
  by (simp add: fft_compute_log_def log_step_def Let_def)


subsection \<open>The band loop, entry by entry\<close>

lemma bands_iter_Some:
  assumes "compute_freq_band (FFT_N cfg) (BAND_N cfg) (freq s) (xscale s) i = Some l"
  shows "bands_iter ub cfg max_val min_val i (Some (out, s)) =
     Some (out[i := fst (band_step ub (BAND_FADE cfg) (BAND_DELAY cfg) max_val min_val
                    (fscale (real (unat max_val) / 64) (fshift 40 l)) (out ! i, delay s ! i))],
           s\<lparr>delay := (delay s)[i := snd (band_step ub (BAND_FADE cfg) (BAND_DELAY cfg) max_val min_val
                    (fscale (real (unat max_val) / 64) (fshift 40 l)) (out ! i, delay s ! i))]\<rparr>)"
  using assms by (simp add: bands_iter_def Let_def)

lemma bands_fold_char:
  assumes reads: "\<forall>i<k. compute_freq_band (FFT_N cfg) (BAND_N cfg) (freq s) (xscale s) i = Some (l i)"
    and lens: "length out = n" "length (delay s) = n"
  shows "\<exists>out' dl'.
      fold (bands_iter ub cfg max_val min_val) [0..<k] (Some (out, s)) = Some (out', s\<lparr>delay := dl'\<rparr>)
    \<and> length out' = n \<and> length dl' = n
    \<and> (\<forall>j<n. (out' ! j, dl' ! j) =
          (if j < k
           then band_step ub (BAND_FADE cfg) (BAND_DELAY cfg) max_val min_val
                  (fscale (real (unat max_val) / 64) (fshift 40 (l j))) (out ! j, delay s ! j)
           else (out ! j, delay s ! j)))"
  using reads
proof (induction k)
  case 0
  show ?case
    by (rule exI [of _ out], rule exI [of _ "delay s"]) (simp add: lens)
next
  case (Suc k)
  let ?bs = "\<lambda>j. band_step ub (BAND_FADE cfg) (BAND_DELAY cfg) max_val min_val
                  (fscale (real (unat max_val) / 64) (fshift 40 (l j)))"
  from Suc.prems have "\<forall>i<k. compute_freq_band (FFT_N cfg) (BAND_N cfg) (freq s) (xscale s) i = Some (l i)"
    by simp
  from Suc.IH [OF this] obtain out' dl' where
    run: "fold (bands_iter ub cfg max_val min_val) [0..<k] (Some (out, s)) = Some (out', s\<lparr>delay := dl'\<rparr>)"
    and len: "length out' = n" "length dl' = n"
    and old: "\<forall>j<n. (out' ! j, dl' ! j) = (if j < k then ?bs j (out ! j, delay s ! j) else (out ! j, delay s ! j))"
    by blast
  from Suc.prems
  have rd: "compute_freq_band (FFT_N cfg) (BAND_N cfg) (freq (s\<lparr>delay := dl'\<rparr>)) (xscale (s\<lparr>delay := dl'\<rparr>)) k
      = Some (l k)"
    by simp
  define r where "r = ?bs k (out' ! k, dl' ! k)"
  have step: "fold (bands_iter ub cfg max_val min_val) [0..<Suc k] (Some (out, s))
      = Some (out'[k := fst r], s\<lparr>delay := dl'[k := snd r]\<rparr>)"
    using bands_iter_Some [OF rd, of ub max_val min_val out'] by (simp add: run r_def)
  have new: "(out'[k := fst r] ! j, dl'[k := snd r] ! j)
      = (if j < Suc k then ?bs j (out ! j, delay s ! j) else (out ! j, delay s ! j))"
    if j: "j < n" for j
  proof (cases "j = k")
    case True
    have "(out' ! k, dl' ! k) = (out ! k, delay s ! k)"
      using old j True by simp
    then have "r = ?bs k (out ! k, delay s ! k)"
      by (simp add: r_def)
    then show ?thesis using True j len by simp
  next
    case False
    then have "(out'[k := fst r] ! j, dl'[k := snd r] ! j) = (out' ! j, dl' ! j)"
      by simp
    then show ?thesis using old j False by auto
  qed
  show ?case
    by (rule exI [of _ "out'[k := fst r]"], rule exI [of _ "dl'[k := snd r]"])
       (use new in \<open>simp only: step len length_list_update simp_thms\<close>, blast)
qed


lemma table_reads:
  assumes "length (freq s) = FFT_N cfg" and "xscale s = xscale_table (FFT_N cfg) (BAND_N cfg)"
    and "0 < FFT_N cfg" and "0 < BAND_N cfg"
  shows "\<exists>l. \<forall>i<BAND_N cfg.
     compute_freq_band (FFT_N cfg) (BAND_N cfg) (freq s) (xscale s) i = Some (l i)"
proof -
  have "\<exists>v. compute_freq_band (FFT_N cfg) (BAND_N cfg) (freq s) (xscale s) i = Some v"
    if "i < BAND_N cfg" for i
  proof (rule compute_freq_band_in_range)
    have b1: "xscale s ! i = xscale_at (FFT_N cfg) (BAND_N cfg) i"
      and b2: "xscale s ! (i + 1) = xscale_at (FFT_N cfg) (BAND_N cfg) (i + 1)"
      using that by (simp_all add: assms(2) xscale_table_nth)
    have bd1: "1 / 2 \<le> xscale_at (FFT_N cfg) (BAND_N cfg) i
        \<and> xscale_at (FFT_N cfg) (BAND_N cfg) i \<le> real (FFT_N cfg) - 1 / 2"
      using assms(3,4) that by (intro xscale_at_bounds) simp_all
    have bd2: "1 / 2 \<le> xscale_at (FFT_N cfg) (BAND_N cfg) (i + 1)
        \<and> xscale_at (FFT_N cfg) (BAND_N cfg) (i + 1) \<le> real (FFT_N cfg) - 1 / 2"
      using assms(3,4) that by (intro xscale_at_bounds) simp_all
    show "length (freq s) = FFT_N cfg" by (rule assms(1))
    show "1 / 2 \<le> xscale s ! i" using bd1 by (simp only: b1)
    show "xscale s ! i \<le> real (FFT_N cfg) - 1 / 2" using bd1 by (simp only: b1)
    show "1 / 2 \<le> xscale s ! (i + 1)" using bd2 by (simp only: b2)
    show "xscale s ! (i + 1) \<le> real (FFT_N cfg) - 1 / 2" using bd2 by (simp only: b2)
  qed
  then have "\<forall>i. \<exists>v. i < BAND_N cfg \<longrightarrow>
      compute_freq_band (FFT_N cfg) (BAND_N cfg) (freq s) (xscale s) i = Some v"
    by blast
  then show ?thesis by metis
qed

lemma fst_band_step:
  "fst (band_step ub fade hold max_val min_val x st)
     = clamp_u16 max_val min_val
         (if fgt x (real (unat (word_of_int (MAX_int 0 (uint (fst st) - (fade - snd st))) :: 16 word)))
          then to_u16 ub x
          else word_of_int (MAX_int 0 (uint (fst st) - (fade - snd st))))"
  by (simp add: band_step_def Let_def)


text \<open>
  Claim C6. With \<open>min_val \<le> max_val\<close>, every entry of the output buffer lies between
  \<open>min_val\<close> and \<open>max_val\<close> after one call of \<^verbatim>\<open>fft_compute_lin\<close>, of \<^verbatim>\<open>fft_compute_log\<close> or
  of \<^verbatim>\<open>fft_compute_bands\<close>, for every spectrum, every prior contents of the buffer and
  every value that an out-of-range store into a \<^verbatim>\<open>uint16_t\<close> may leave (\<open>ub\<close>). The buffers
  have the sizes the loops run over, and the band boundaries are those of
  \<^verbatim>\<open>compute_fft_tables\<close>, so that \<^verbatim>\<open>fft_compute_bands\<close> reads inside the spectrum and returns.
\<close>

theorem shapers_within_bounds:
  assumes "min_val \<le> max_val"
    and "length lin_out = FFT_OUT_N cfg"
    and "length band_out = BAND_N cfg" and "length (delay s) = BAND_N cfg"
    and "length (freq s) = FFT_N cfg" and "xscale s = xscale_table (FFT_N cfg) (BAND_N cfg)"
    and "0 < FFT_N cfg" and "0 < BAND_N cfg"
  shows "(\<forall>v \<in> set (fft_compute_lin ub cfg s lin_out max_val min_val). min_val \<le> v \<and> v \<le> max_val)
       \<and> (\<forall>v \<in> set (fft_compute_log ub cfg s lin_out max_val min_val). min_val \<le> v \<and> v \<le> max_val)
       \<and> (\<exists>out' s'. fft_compute_bands ub cfg s band_out max_val min_val = Some (out', s')
             \<and> length out' = BAND_N cfg
             \<and> (\<forall>v \<in> set out'. min_val \<le> v \<and> v \<le> max_val))"
proof (intro conjI)
  show "\<forall>v \<in> set (fft_compute_lin ub cfg s lin_out max_val min_val). min_val \<le> v \<and> v \<le> max_val"
    unfolding all_set_conv_all_nth length_fft_compute_lin
    using assms(1,2) by (simp add: fft_compute_lin_nth clamp_u16_range)
  show "\<forall>v \<in> set (fft_compute_log ub cfg s lin_out max_val min_val). min_val \<le> v \<and> v \<le> max_val"
    unfolding all_set_conv_all_nth length_fft_compute_log
    using assms(1,2) by (simp add: fft_compute_log_nth clamp_u16_range)
  obtain l where reads: "\<forall>i<BAND_N cfg.
      compute_freq_band (FFT_N cfg) (BAND_N cfg) (freq s) (xscale s) i = Some (l i)"
    using table_reads [OF assms(5-8)] by blast
  from bands_fold_char [OF reads assms(3,4), of ub max_val min_val]
  obtain out' dl' where
    run: "fft_compute_bands ub cfg s band_out max_val min_val = Some (out', s\<lparr>delay := dl'\<rparr>)"
    and len: "length out' = BAND_N cfg"
    and new: "\<forall>j<BAND_N cfg. (out' ! j, dl' ! j) =
          band_step ub (BAND_FADE cfg) (BAND_DELAY cfg) max_val min_val
            (fscale (real (unat max_val) / 64) (fshift 40 (l j))) (band_out ! j, delay s ! j)"
    unfolding fft_compute_bands_def by auto
  have "min_val \<le> out' ! j \<and> out' ! j \<le> max_val" if "j < BAND_N cfg" for j
  proof -
    have "out' ! j = fst (band_step ub (BAND_FADE cfg) (BAND_DELAY cfg) max_val min_val
            (fscale (real (unat max_val) / 64) (fshift 40 (l j))) (band_out ! j, delay s ! j))"
      using new that by (metis fst_conv)
    then show ?thesis
      using assms(1) by (simp only: fst_band_step clamp_u16_range)
  qed
  then have "\<forall>v \<in> set out'. min_val \<le> v \<and> v \<le> max_val"
    unfolding all_set_conv_all_nth len by blast
  with run len
  show "\<exists>out' s'. fft_compute_bands ub cfg s band_out max_val min_val = Some (out', s')
             \<and> length out' = BAND_N cfg
             \<and> (\<forall>v \<in> set out'. min_val \<le> v \<and> v \<le> max_val)"
    by blast
qed


subsection \<open>One band, two bins: the shapers run on \<open>cfg2\<close>\<close>

lemma xscale_table_2_1: "xscale_table 2 (Suc 0) = [1 / 2, 3 / 2]"
proof -
  have "[0..<2] = [0, Suc 0]" by (simp add: upt_rec)
  then show ?thesis by (simp add: xscale_table_def xscale_at_def)
qed

lemma band_sum_empty: "\<not> a < b \<Longrightarrow> band_sum fq a b n = Some n"
  by (subst band_sum.simps) simp

lemma compute_freq_band_cfg2:
  "compute_freq_band 2 (Suc 0) [f0, f1] [1 / 2, 3 / 2] 0
     = Some (fscale 20 (log10f (Fin ((f0 / 2 + f1 / 2) / 24))))"
proof -
  have c: "\<lceil>1 / 2 :: real\<rceil> = 1" "\<lfloor>3 / 2 :: real\<rfloor> = 1"
    by linarith+
  show ?thesis
    by (simp add: compute_freq_band_def c freq_read_def band_sum_empty)
qed

lemma fft_compute_bands_cfg2:
  assumes "freq s = [f0, f1]" and "xscale s = [1 / 2, 3 / 2]" and "delay s = [dl]"
  shows "fft_compute_bands ub cfg2 s [d] max_val min_val =
     Some ([fst (band_step ub 2 2 max_val min_val
                  (fscale (real (unat max_val) / 64)
                     (fshift 40 (fscale 20 (log10f (Fin ((f0 / 2 + f1 / 2) / 24)))))) (d, dl))],
           s\<lparr>delay := [snd (band_step ub 2 2 max_val min_val
                  (fscale (real (unat max_val) / 64)
                     (fshift 40 (fscale 20 (log10f (Fin ((f0 / 2 + f1 / 2) / 24)))))) (d, dl))]\<rparr>)"
  by (simp add: fft_compute_bands_def cfg2_def bands_iter_def assms compute_freq_band_cfg2 Let_def)

lemma init_state_2:
  "fft_init cfg2 (initial_state cfg2)
     = \<lparr>freq = [0, 0], bitrev = [0, 1], window = window_table 2,
        xscale = [1 / 2, 3 / 2], data = [0, 0],
        root_tbl = [1], generated = True, delay = [0]\<rparr>"
proof -
  have b: "bitrev_table 2 = [0, 1]" by code_simp
  have r: "replicate 2 x = [x, x]" for x :: 'a by (simp add: numeral_2_eq_2)
  show ?thesis
    by (simp add: cfg2_def fft_init_def initial_state_def compute_fft_tables_def Let_def
        b root_table_2 r xscale_table_2_1)
qed

lemma compute_freq_lin_silence: "compute_freq_lin [0, 0] 2 0 = Fin 0"
  by (simp add: compute_freq_lin_def upt_2 fcast_def round_float_0 round_double_0
      round_float_numeral)

lemma lin_cfg2:
  "fft_compute_lin (\<lambda>v. 0) cfg2 (fft_init cfg2 (initial_state cfg2)) [7] 100 1 = [3]"
proof -
  have f: "\<lfloor>7 / 2 :: real\<rfloor> = 3" by linarith
  have q: "round_double (5 / 2) = Fin (5 / 2)"
    by (rule round_double_dyadic [where m = 5 and k = "- 1"]) (simp_all add: pow2_def)
  have h: "round_double (7 / 2) = Fin (7 / 2)"
    by (rule round_double_dyadic [where m = 7 and k = "- 1"]) (simp_all add: pow2_def)
  show ?thesis
    unfolding init_state_2
    by (simp add: fft_compute_lin_def cfg2_def lin_step_def compute_freq_lin_silence
        round_double_0 round_double_numeral q h to_u16_def clamp_u16_def f)
qed

lemma log_cfg2:
  "fft_compute_log (\<lambda>v. 0) cfg2 (fft_init cfg2 (initial_state cfg2)) [7] 100 1 = [3]"
proof -
  have f: "\<lfloor>7 / 2 :: real\<rfloor> = 3" by linarith
  show ?thesis
    unfolding init_state_2
    by (simp add: fft_compute_log_def cfg2_def log_step_def compute_freq_lin_silence Let_def
        fscale_def fshift_def log10f_def to_u16_def clamp_u16_def f)
qed

lemma bands_cfg2:
  "fft_compute_bands (\<lambda>v. 0) cfg2 (fft_init cfg2 (initial_state cfg2)) [200] 100 1
     = Some ([100], fft_init cfg2 (initial_state cfg2))"
  unfolding init_state_2
  by (subst fft_compute_bands_cfg2 [where ?f0.0 = 0 and ?f1.0 = 0 and dl = 0])
     (simp_all add: log10f_def fscale_def fshift_def band_step_def Let_def fgt_def MAX_int_def
        clamp_u16_def)

theorem shapers_within_bounds_witness:
  "(1 :: 16 word) \<le> 100
   \<and> length [7 :: 16 word] = FFT_OUT_N cfg2 \<and> length [200 :: 16 word] = BAND_N cfg2
   \<and> length (delay (fft_init cfg2 (initial_state cfg2))) = BAND_N cfg2
   \<and> length (freq (fft_init cfg2 (initial_state cfg2))) = FFT_N cfg2
   \<and> xscale (fft_init cfg2 (initial_state cfg2)) = xscale_table (FFT_N cfg2) (BAND_N cfg2)
   \<and> 0 < FFT_N cfg2 \<and> 0 < BAND_N cfg2
   \<and> fft_compute_lin (\<lambda>v. 0) cfg2 (fft_init cfg2 (initial_state cfg2)) [7] 100 1 = [3]
   \<and> fft_compute_log (\<lambda>v. 0) cfg2 (fft_init cfg2 (initial_state cfg2)) [7] 100 1 = [3]
   \<and> fft_compute_bands (\<lambda>v. 0) cfg2 (fft_init cfg2 (initial_state cfg2)) [200] 100 1
       = Some ([100], fft_init cfg2 (initial_state cfg2))
   \<and> (\<exists>out' s'. fft_compute_bands (\<lambda>v. 0) cfg2 (fft_init cfg2 (initial_state cfg2)) [200] 100 1
         = Some (out', s')
       \<and> length out' = BAND_N cfg2 \<and> (\<forall>v \<in> set out'. 1 \<le> v \<and> v \<le> 100))"
proof -
  let ?s = "fft_init cfg2 (initial_state cfg2)"
  have c: "FFT_N cfg2 = 2" "FFT_OUT_N cfg2 = 1" "BAND_N cfg2 = 1"
    by (simp_all add: cfg2_def)
  have h: "(1 :: 16 word) \<le> 100" "length [7 :: 16 word] = FFT_OUT_N cfg2"
    "length [200 :: 16 word] = BAND_N cfg2" "length (delay ?s) = BAND_N cfg2"
    "length (freq ?s) = FFT_N cfg2" "xscale ?s = xscale_table (FFT_N cfg2) (BAND_N cfg2)"
    "0 < FFT_N cfg2" "0 < BAND_N cfg2"
    by (simp_all add: c init_state_2 xscale_table_2_1)
  from shapers_within_bounds [OF h, of "\<lambda>v. 0"] h lin_cfg2 log_cfg2 bands_cfg2
  show ?thesis by simp
qed

subsection \<open>The value written by \<^verbatim>\<open>fft_compute_lin\<close>\<close>

text \<open>The loop of \<^verbatim>\<open>compute_freq_lin\<close> adds the bins of its group in their order.\<close>

lemma fold_float_sum:
  assumes "a + k \<le> length fq"
  shows "fold (\<lambda>i n. fadd round_float n (Fin (fq ! (a + i)))) [0..<k] acc
     = foldl (\<lambda>n x. fadd round_float n (Fin x)) acc (take k (drop a fq))"
  using assms
proof (induction k)
  case 0
  then show ?case by simp
next
  case (Suc k)
  then have "k < length (drop a fq)" by simp
  then have "take (Suc k) (drop a fq) = take k (drop a fq) @ [fq ! (a + k)]"
    by (simp add: take_Suc_conv_app_nth)
  then show ?case using Suc by simp
qed

lemma compute_freq_lin_float_sum:
  assumes "step * idx + step \<le> length fq"
  shows "compute_freq_lin fq step idx
     = fcast round_float (fmul round_double
         (fdiv round_float (float_sum (take step (drop (step * idx) fq))) (round_float (real step)))
         (Fin 2))"
  using fold_float_sum [OF assms, of "Fin 0"]
  by (simp add: compute_freq_lin_def float_sum_def)

text \<open>
  The accumulation rounds: for the two bins \<open>16777215 / 2^24\<close> and \<open>1 / 2^25\<close> the \<^verbatim>\<open>float\<close>
  sum is a tie that goes to \<open>1\<close>, and \<^verbatim>\<open>compute_freq_lin\<close> returns \<open>1\<close>, which is more than
  twice the average of the two.
\<close>

lemma compute_freq_lin_tie:
  "compute_freq_lin [16777215 / 2 ^ 24, 1 / 2 ^ 25] 2 0 = Fin 1"
proof -
  have a: "round_float (16777215 / 2 ^ 24) = Fin (16777215 / 2 ^ 24)"
    by (rule round_float_dyadic [where m = 16777215 and k = "- 24"]) (simp_all add: pow2_def)
  have b: "round_float (16777215 / 2 ^ 24 + 1 / 2 ^ 25) = Fin 1"
    unfolding round_float_def
    by (subst round_to_eval [where e = "- 1"]) (simp_all add: pow2_def round_even_def Let_def)
  have h: "round_float (1 / 2) = Fin (1 / 2)"
    by (rule round_float_dyadic [where m = 1 and k = "- 1"]) (simp_all add: pow2_def)
  have "fold (\<lambda>i n. fadd round_float n (Fin ([16777215 / 2 ^ 24, 1 / 2 ^ 25] ! (2 * 0 + i))))
      [0..<2] (Fin 0) = Fin 1"
    unfolding upt_2 using a b by simp
  then show ?thesis
    unfolding compute_freq_lin_def
    by (simp add: fcast_def round_float_numeral h round_double_1 round_float_1)
qed

lemma to_u16_in_range:
  "- 1 < v \<Longrightarrow> v < 65536 \<Longrightarrow> to_u16 ub (Fin v) = word_of_nat (nat \<lfloor>v\<rfloor>)"
  by (simp add: to_u16_def)

lemma unat_u16_of_nat: "m < 65536 \<Longrightarrow> unat (word_of_nat m :: 16 word) = m"
  by (simp add: unat_of_nat)

lemma halve_u16:
  assumes "m < 65536"
  shows "to_u16 ub (fdiv round_double (Fin (real m)) (Fin 2)) = word_of_nat (m div 2)"
proof -
  have "m < 2 ^ 53" using assms by simp
  then have r: "fdiv round_double (Fin (real m)) (Fin 2) = Fin (real m / 2)"
    by (simp add: round_double_half_nat)
  have "\<lfloor>real m / 2\<rfloor> = int (m div 2)"
    using floor_divide_of_nat_eq [of m 2, where ?'a = real] by simp
  moreover have "- 1 < real m / 2" "real m / 2 < 65536"
    using assms by simp_all
  ultimately show ?thesis unfolding r by (simp add: to_u16_in_range)
qed

text \<open>
  Claim C2, as amended. For a spectrum array of \<open>FFT_N\<close> finite values, \<^verbatim>\<open>fft_compute_lin\<close>
  writes \<open>FFT_OUT_N\<close> values. With \<open>step = FFT_N / FFT_OUT_N\<close>, let \<open>a\<close> be twice the average
  of the \<open>step\<close> bins of group \<open>i\<close> as the code computes it: the bins are added from the
  left in \<^verbatim>\<open>float\<close>, the sum is divided by \<open>step\<close> in \<^verbatim>\<open>float\<close>, and the quotient is doubled
  (the \<^verbatim>\<open>* 2.0\<close> of \<^verbatim>\<open>compute_freq_lin\<close>) and rounded to \<^verbatim>\<open>float\<close>. Let \<open>v\<close> be the prior value
  of entry \<open>i\<close> plus \<open>a\<close> times \<open>max_val / 40\<close>, the quotient, the product and the sum each
  rounded to \<^verbatim>\<open>double\<close>. When \<open>v\<close> is a number strictly between \<open>-1\<close> and \<open>65536\<close>, so that the
  store into the \<^verbatim>\<open>uint16_t\<close> is defined, the \<open>i\<close>-th new value is obtained by dropping the
  fraction of \<open>v\<close>, halving the stored integer with its fraction dropped again, and clamping
  the result to \<open>[min_val, max_val]\<close>.
\<close>

theorem fft_compute_lin_value:
  assumes "i < FFT_OUT_N cfg" and "length data_out = FFT_OUT_N cfg"
    and "length (freq s) = FFT_N cfg" and "step = FFT_N cfg div FFT_OUT_N cfg"
    and "a = fcast round_float (fmul round_double
               (fdiv round_float (float_sum (take step (drop (step * i) (freq s))))
                  (round_float (real step)))
               (Fin 2))"
    and "fadd round_double (Fin (real (unat (data_out ! i))))
           (fmul round_double a (fdiv round_double (Fin (real (unat max_val))) (Fin 40))) = Fin v"
    and "- 1 < v" and "v < 65536"
  shows "length (fft_compute_lin ub cfg s data_out max_val min_val) = FFT_OUT_N cfg
       \<and> fft_compute_lin ub cfg s data_out max_val min_val ! i
           = clamp_u16 max_val min_val (word_of_nat (nat \<lfloor>v\<rfloor> div 2))"
proof -
  have "step * (i + 1) \<le> step * FFT_OUT_N cfg"
    using assms(1) by (intro mult_le_mono2) simp
  also have "\<dots> \<le> FFT_N cfg"
    unfolding assms(4) by (simp add: mult.commute)
  finally have inside: "step * i + step \<le> length (freq s)"
    by (simp add: assms(3))
  have lin: "compute_freq_lin (freq s) (FFT_N cfg div FFT_OUT_N cfg) i = a"
    unfolding assms(4) [symmetric] assms(5) using inside by (rule compute_freq_lin_float_sum)
  have small: "nat \<lfloor>v\<rfloor> < 65536"
    using assms(8) by linarith
  have "fft_compute_lin ub cfg s data_out max_val min_val ! i
      = clamp_u16 max_val min_val
          (to_u16 ub (fdiv round_double (Fin (real (unat (to_u16 ub (Fin v))))) (Fin 2)))"
    using assms(1,2) by (simp only: fft_compute_lin_nth lin assms(6))
  also have "to_u16 ub (Fin v) = word_of_nat (nat \<lfloor>v\<rfloor>)"
    using assms(7,8) by (rule to_u16_in_range)
  also have "unat (word_of_nat (nat \<lfloor>v\<rfloor>) :: 16 word) = nat \<lfloor>v\<rfloor>"
    using small by (rule unat_u16_of_nat)
  also have "to_u16 ub (fdiv round_double (Fin (real (nat \<lfloor>v\<rfloor>))) (Fin 2))
      = word_of_nat (nat \<lfloor>v\<rfloor> div 2)"
    using small by (rule halve_u16)
  finally show ?thesis
    using assms(2) by (simp add: length_fft_compute_lin)
qed

lemma lin_cfg4:
  "fft_compute_lin (\<lambda>v. 0) cfg4 ((initial_state cfg4)\<lparr>freq := [10, 10, 10, 10]\<rparr>) [0, 0] 40 0
     = [10, 10]"
  by (simp add: fft_compute_lin_def cfg4_def lin_step_def compute_freq_lin_def
      upt_2 fcast_def round_float_0 round_float_numeral round_double_numeral round_double_1
      to_u16_def clamp_u16_def)

text \<open>
  Counterexample to claim C2 as stated: \<open>FFT_N = 4\<close>, \<open>FFT_OUT_N = 2\<close>, a spectrum of four
  bins of value 10, an output buffer \<open>[0, 0]\<close>, \<open>max_val = 40\<close> and \<open>min_val = 0\<close>. Every
  operation is exact on these numbers. Each group averages to 10; the code writes
  \<open>(0 + 2 * 10 * 1) / 2 = 10\<close>, the claim states \<open>(0 + 10 * 1) / 2 = 5\<close>.
\<close>

theorem fft_compute_lin_counterexample:
  "fft_compute_lin (\<lambda>v. 0) cfg4 ((initial_state cfg4)\<lparr>freq := [10, 10, 10, 10]\<rparr>) [0, 0] 40 0
     = [10, 10]
   \<and> lin_value_as_claimed 0 ((10 + 10) / 2) 40 0 = 5"
  by (simp add: lin_cfg4 lin_value_as_claimed_def)

text \<open>
  The amended statement at \<open>FFT_N = 2\<close>, \<open>FFT_OUT_N = 1\<close>, two bins of value 30, a prior
  entry 0, \<open>max_val = 164\<close> and \<open>min_val = 0\<close>. Twice the average is 60. The \<^verbatim>\<open>double\<close> nearest
  to \<open>164 / 40\<close> lies below \<open>4.1\<close>, and 60 times it rounds to the \<^verbatim>\<open>double\<close> just below 246:
  the store keeps 245 and the entry becomes 122, where exact arithmetic gives 123.
\<close>

theorem fft_compute_lin_value_witness:
  "(0::nat) < FFT_OUT_N cfg2 \<and> length [0 :: 16 word] = FFT_OUT_N cfg2
   \<and> length (freq ((initial_state cfg2)\<lparr>freq := [30, 30]\<rparr>)) = FFT_N cfg2
   \<and> (2::nat) = FFT_N cfg2 div FFT_OUT_N cfg2
   \<and> Fin 60 = fcast round_float (fmul round_double
        (fdiv round_float
           (float_sum (take 2 (drop (2 * 0) (freq ((initial_state cfg2)\<lparr>freq := [30, 30]\<rparr>)))))
           (round_float (real 2)))
        (Fin 2))
   \<and> fadd round_double (Fin (real (unat ([0 :: 16 word] ! 0))))
        (fmul round_double (Fin 60) (fdiv round_double (Fin (real (unat (164 :: 16 word)))) (Fin 40)))
       = Fin (8655355533852671 / 2 ^ 45)
   \<and> (- 1 :: real) < 8655355533852671 / 2 ^ 45 \<and> (8655355533852671 / 2 ^ 45 :: real) < 65536
   \<and> fft_compute_lin (\<lambda>v. 0) cfg2 ((initial_state cfg2)\<lparr>freq := [30, 30]\<rparr>) [0] 164 0 = [122]"
proof -
  let ?s = "(initial_state cfg2)\<lparr>freq := [30, 30]\<rparr>"
  let ?v = "8655355533852671 / 2 ^ 45 :: real"
  have c: "FFT_N cfg2 = 2" "FFT_OUT_N cfg2 = 1" by (simp_all add: cfg2_def)
  have h1: "(0::nat) < FFT_OUT_N cfg2" "length [0 :: 16 word] = FFT_OUT_N cfg2"
    "length (freq ?s) = FFT_N cfg2" "(2::nat) = FFT_N cfg2 div FFT_OUT_N cfg2"
    by (simp_all add: c)
  have a: "Fin 60 = fcast round_float (fmul round_double
        (fdiv round_float (float_sum (take 2 (drop (2 * 0) (freq ?s)))) (round_float (real 2)))
        (Fin 2))"
    by (simp add: float_sum_def fcast_def round_float_numeral round_double_numeral)
  have q: "round_double (41 / 10) = Fin (4616189618054758 / 2 ^ 50)"
    unfolding round_double_def
    by (subst round_to_eval [where e = 2]) (simp_all add: pow2_def round_even_def Let_def)
  have p: "round_double (60 * (4616189618054758 / 2 ^ 50)) = Fin ?v"
    unfolding round_double_def
    by (subst round_to_eval [where e = 7]) (simp_all add: pow2_def round_even_def Let_def)
  have r: "round_double ?v = Fin ?v"
    by (rule round_double_dyadic [where m = 8655355533852671 and k = "- 45"])
      (simp_all add: pow2_def)
  have v: "fadd round_double (Fin (real (unat ([0 :: 16 word] ! 0))))
        (fmul round_double (Fin 60) (fdiv round_double (Fin (real (unat (164 :: 16 word)))) (Fin 40)))
       = Fin ?v"
  proof -
    have "fdiv round_double (Fin (real (unat (164 :: 16 word)))) (Fin 40) = round_double (41 / 10)"
      by simp
    then have "fmul round_double (Fin 60)
        (fdiv round_double (Fin (real (unat (164 :: 16 word)))) (Fin 40)) = Fin ?v"
      by (simp only: q fmul.simps p)
    then show ?thesis
      using r by simp
  qed
  have b: "(- 1 :: real) < ?v" "?v < 65536" by simp_all
  have f: "nat \<lfloor>?v\<rfloor> = 245"
  proof -
    have "\<lfloor>?v\<rfloor> = 245" by (rule floor_unique) simp_all
    then show ?thesis by simp
  qed
  have "length (fft_compute_lin (\<lambda>v. 0) cfg2 ?s [0] 164 0) = FFT_OUT_N cfg2
      \<and> fft_compute_lin (\<lambda>v. 0) cfg2 ?s [0] 164 0 ! 0
          = clamp_u16 164 0 (word_of_nat (nat \<lfloor>?v\<rfloor> div 2))"
    by (rule fft_compute_lin_value [OF h1 a v b])
  then have "length (fft_compute_lin (\<lambda>v. 0) cfg2 ?s [0] 164 0) = 1
      \<and> fft_compute_lin (\<lambda>v. 0) cfg2 ?s [0] 164 0 ! 0 = 122"
    by (simp add: c f clamp_u16_def)
  then have res: "fft_compute_lin (\<lambda>v. 0) cfg2 ?s [0] 164 0 = [122]"
    by (cases "fft_compute_lin (\<lambda>v. 0) cfg2 ?s [0] 164 0") auto
  show ?thesis by (intro conjI h1 a v b res)
qed

subsection \<open>Decay and hold of one band\<close>







subsection \<open>Frame after frame\<close>















end
